theory Spec2Isabelle
  imports Main "HOL-Library.Word" "HOL-Library.Sublist"
begin

section \<open>The scrollback ring buffer of the PTY wrapper\<close>

text \<open>
  The wrapper keeps the child's output in a fixed-capacity circular byte store
  (class \<open>RingBuffer\<close> of tm-wrapper.js). Bytes are 8-bit words; the counters are
  JavaScript numbers that only ever hold non-negative integers, modelled as \<open>nat\<close>.
\<close>

type_synonym byte = "8 word"

record RingBuffer =
  buf :: "byte list"
  capacity :: nat
  writePos :: nat
  totalWritten :: nat

text \<open>\<open>new RingBuffer(capacity)\<close>: a zero-filled store, both counters at 0.\<close>

definition newRingBuffer :: "nat \<Rightarrow> RingBuffer" where
  "newRingBuffer c = \<lparr> buf = replicate c 0, capacity = c, writePos = 0, totalWritten = 0 \<rparr>"

text \<open>
  \<open>src.copy(target, targetStart, sourceStart, sourceEnd)\<close> of Node's Buffer: the bytes
  \<open>src[sourceStart..sourceEnd)\<close> overwrite \<open>target\<close> from \<open>targetStart\<close> on, cut off
  at the end of the target; the target never grows.
\<close>

definition buffer_copy :: "byte list \<Rightarrow> byte list \<Rightarrow> nat \<Rightarrow> nat \<Rightarrow> nat \<Rightarrow> byte list" where
  "buffer_copy src target targetStart sourceStart sourceEnd =
     (let chunk = take (sourceEnd - sourceStart) (drop sourceStart src);
          n = min (length chunk) (length target - targetStart)
      in take targetStart target @ take n chunk @ drop (targetStart + n) target)"

text \<open>\<open>buf.subarray(start, stop)\<close>.\<close>

definition subarray :: "byte list \<Rightarrow> nat \<Rightarrow> nat \<Rightarrow> byte list" where
  "subarray b start stop = take (stop - start) (drop start b)"

text \<open>\<open>RingBuffer.write\<close>, its three branches in the order of the source.\<close>

definition rb_write :: "RingBuffer \<Rightarrow> byte list \<Rightarrow> RingBuffer" where
  "rb_write rb src =
     (if length src \<ge> capacity rb then
        rb\<lparr> buf := buffer_copy src (buf rb) 0 (length src - capacity rb) (length src),
            writePos := 0,
            totalWritten := totalWritten rb + length src \<rparr>
      else if writePos rb + length src \<le> capacity rb then
        rb\<lparr> buf := buffer_copy src (buf rb) (writePos rb) 0 (length src),
            writePos := writePos rb + length src,
            totalWritten := totalWritten rb + length src \<rparr>
      else
        (let firstPart = capacity rb - writePos rb;
             b1 = buffer_copy src (buf rb) (writePos rb) 0 firstPart;
             b2 = buffer_copy src b1 0 firstPart (length src)
         in rb\<lparr> buf := b2,
                writePos := length src - firstPart,
                totalWritten := totalWritten rb + length src \<rparr>))"

text \<open>\<open>RingBuffer.getContents\<close>.\<close>

definition getContents :: "RingBuffer \<Rightarrow> byte list" where
  "getContents rb =
     (if totalWritten rb \<le> capacity rb then subarray (buf rb) 0 (writePos rb)
      else subarray (buf rb) (writePos rb) (length (buf rb)) @ subarray (buf rb) 0 (writePos rb))"

text \<open>A sequence of writes, oldest first, applied to a fresh buffer.\<close>

definition rb_writes :: "nat \<Rightarrow> byte list list \<Rightarrow> RingBuffer" where
  "rb_writes c ws = foldl rb_write (newRingBuffer c) ws"

text \<open>The last \<open>n\<close> elements of a list (all of it when it is shorter).\<close>

definition last_n :: "nat \<Rightarrow> 'a list \<Rightarrow> 'a list" where
  "last_n n xs = drop (length xs - n) xs"


section \<open>The host: file system, path library, processes\<close>

text \<open>
  Both programs talk to the operating system through a handful of Node calls. The file
  system is an association list from absolute, normalised path names to nodes (the order
  is the order \<open>readdirSync\<close> lists them in); symbolic links and the permissions of
  directories are not represented. Strings are byte strings, except the authentication
  tokens below, which keep JavaScript's UTF-16 code units.
\<close>

record fnode =
  readable :: bool
  mode :: nat
  data :: string

datatype node = Socket | Regular fnode | Directory

type_synonym fs = "(string \<times> node) list"

datatype errno = ENOENT | EISDIR | ENOTDIR | EACCES | EADDRINUSE | ECONNREFUSED | ENXIO | EOTHER

definition unlinkSync :: "fs \<Rightarrow> string \<Rightarrow> errno + fs" where
  "unlinkSync f p =
     (case map_of f p of
        None \<Rightarrow> Inl ENOENT
      | Some Directory \<Rightarrow> Inl EISDIR
      | Some _ \<Rightarrow> Inr (filter (\<lambda>e. fst e \<noteq> p) f))"

definition accessSync :: "fs \<Rightarrow> string \<Rightarrow> errno + unit" where
  "accessSync f p = (case map_of f p of None \<Rightarrow> Inl ENOENT | Some _ \<Rightarrow> Inr ())"

record stat =
  isFile :: bool
  size :: nat

definition statSync :: "fs \<Rightarrow> string \<Rightarrow> errno + stat" where
  "statSync f p =
     (case map_of f p of
        None \<Rightarrow> Inl ENOENT
      | Some (Regular x) \<Rightarrow> Inr \<lparr> isFile = True, size = length (data x) \<rparr>
      | Some _ \<Rightarrow> Inr \<lparr> isFile = False, size = 0 \<rparr>)"

definition readFileSync :: "fs \<Rightarrow> string \<Rightarrow> errno + string" where
  "readFileSync f p =
     (case map_of f p of
        None \<Rightarrow> Inl ENOENT
      | Some Directory \<Rightarrow> Inl EISDIR
      | Some Socket \<Rightarrow> Inl ENXIO
      | Some (Regular x) \<Rightarrow> (if readable x then Inr (data x) else Inl EACCES))"

text \<open>
  \<open>readdirSync dir\<close>: the names of the entries directly inside \<open>dir\<close>; it throws when
  \<open>dir\<close> is not a directory.
\<close>

definition entry_name :: "string \<Rightarrow> string \<Rightarrow> string option" where
  "entry_name dir p =
     (let pre = (if dir = ''/'' then dir else dir @ ''/'')
      in if prefix pre p \<and> drop (length pre) p \<noteq> [] \<and> CHR ''/'' \<notin> set (drop (length pre) p)
         then Some (drop (length pre) p) else None)"

definition readdirSync :: "fs \<Rightarrow> string \<Rightarrow> errno + string list" where
  "readdirSync f dir =
     (case map_of f dir of
        None \<Rightarrow> Inl ENOENT
      | Some Directory \<Rightarrow> Inr (List.map_filter (\<lambda>e. entry_name dir (fst e)) f)
      | Some _ \<Rightarrow> Inl ENOTDIR)"

text \<open>
  Binding a Unix domain socket (\<open>server.listen(path)\<close>) creates the socket node; it fails
  with EADDRINUSE when the path is already taken.
\<close>

definition listen_unix :: "fs \<Rightarrow> string \<Rightarrow> errno + fs" where
  "listen_unix f p = (case map_of f p of None \<Rightarrow> Inr (f @ [(p, Socket)]) | Some _ \<Rightarrow> Inl EADDRINUSE)"

subsection \<open>The POSIX path library\<close>

text \<open>
  \<open>path.join\<close>, \<open>path.resolve\<close> and \<open>path.relative\<close> of Node on POSIX, on segments:
  a path is split at \<open>/\<close>, empty and \<open>.\<close> segments are dropped, \<open>..\<close> removes the segment
  before it (and is kept in a relative path that has none left).
\<close>

fun split_slash :: "string \<Rightarrow> string \<Rightarrow> string list" where
  "split_slash acc [] = [acc]"
| "split_slash acc (c # cs) =
     (if c = CHR ''/'' then acc # split_slash [] cs else split_slash (acc @ [c]) cs)"

text \<open>\<open>Array.prototype.join(sep)\<close> on strings.\<close>

fun join_sep :: "string \<Rightarrow> string list \<Rightarrow> string" where
  "join_sep sep [] = []"
| "join_sep sep [s] = s"
| "join_sep sep (s # t # ss) = s @ sep @ join_sep sep (t # ss)"

fun normalize_segments :: "bool \<Rightarrow> string list \<Rightarrow> string list \<Rightarrow> string list" where
  "normalize_segments allowAboveRoot stack [] = stack"
| "normalize_segments allowAboveRoot stack (s # ss) =
     (if s = [] \<or> s = ''.'' then normalize_segments allowAboveRoot stack ss
      else if s = ''..'' then
        (if stack \<noteq> [] \<and> last stack \<noteq> ''..''
           then normalize_segments allowAboveRoot (butlast stack) ss
         else if allowAboveRoot then normalize_segments allowAboveRoot (stack @ [s]) ss
         else normalize_segments allowAboveRoot stack ss)
      else normalize_segments allowAboveRoot (stack @ [s]) ss)"

definition normalizeString :: "string \<Rightarrow> bool \<Rightarrow> string" where
  "normalizeString p allowAboveRoot = join_sep ''/'' (normalize_segments allowAboveRoot [] (split_slash [] p))"

definition isAbsolute :: "string \<Rightarrow> bool" where
  "isAbsolute p = (case p of [] \<Rightarrow> False | c # _ \<Rightarrow> c = CHR ''/'')"

definition path_normalize :: "string \<Rightarrow> string" where
  "path_normalize p =
     (if p = [] then ''.''
      else let trailing = (last p = CHR ''/'');
               n = normalizeString p (\<not> isAbsolute p)
           in if n = [] then (if isAbsolute p then ''/'' else if trailing then ''./'' else ''.'')
              else (if isAbsolute p then ''/'' else []) @ n @ (if trailing then ''/'' else []))"

definition path_join :: "string \<Rightarrow> string \<Rightarrow> string" where
  "path_join a b =
     (if a = [] \<and> b = [] then ''.''
      else if a = [] then path_normalize b
      else if b = [] then path_normalize a
      else path_normalize (a @ ''/'' @ b))"

text \<open>\<open>path.resolve(a, b)\<close>; \<open>pcwd\<close> is \<open>process.cwd()\<close>, always absolute.\<close>

definition path_resolve :: "string \<Rightarrow> string \<Rightarrow> string \<Rightarrow> string" where
  "path_resolve pcwd a b =
     (let r0 = (if b = [] then [] else b @ ''/'');
          r1 = (if isAbsolute b \<or> a = [] then r0 else a @ ''/'' @ r0);
          r2 = (if isAbsolute b \<or> isAbsolute a then r1 else pcwd @ ''/'' @ r1)
      in ''/'' @ normalizeString r2 False)"

fun strip_common :: "string list \<Rightarrow> string list \<Rightarrow> string list \<times> string list" where
  "strip_common (x # xs) (y # ys) = (if x = y then strip_common xs ys else (x # xs, y # ys))"
| "strip_common xs ys = (xs, ys)"

definition path_relative :: "string \<Rightarrow> string \<Rightarrow> string \<Rightarrow> string" where
  "path_relative pcwd from to =
     (let f = normalize_segments False [] (split_slash [] (path_resolve pcwd from []));
          t = normalize_segments False [] (split_slash [] (path_resolve pcwd to []));
          (f', t') = strip_common f t
      in join_sep ''/'' (replicate (length f') ''..'' @ t'))"

subsection \<open>Numbers and strings\<close>

text \<open>\<open>String(n)\<close> for a non-negative integer: its decimal digits.\<close>

definition digit_char :: "nat \<Rightarrow> char" where
  "digit_char d = char_of (48 + d)"

function string_of_nat :: "nat \<Rightarrow> string" where
  "string_of_nat n = (if n < 10 then [digit_char n] else string_of_nat (n div 10) @ [digit_char (n mod 10)])"
  by pat_completeness auto
termination
  by (relation "measure id") auto

declare string_of_nat.simps [simp del]


text \<open>
  What a process sees of its host: the file system, \<open>os.tmpdir()\<close>, \<open>os.homedir()\<close>,
  \<open>process.cwd()\<close>, \<open>process.pid\<close>, the size of its terminal (\<open>process.stdout.columns\<close>
  and \<open>rows\<close>, undefined when standard output is not a terminal), whether
  \<open>process.kill(pid, 0)\<close> returns normally, the clock read by
  \<open>new Date().toISOString()\<close>, the milliseconds \<open>new Date(s)\<close> gives for a time stamp,
  which WebSocket clients are in state OPEN, and the directory of the static assets.
\<close>

record host =
  files :: fs
  tmpdir :: string
  homedir :: string
  pcwd :: string
  hpid :: nat
  stdout_columns :: "nat option"
  stdout_rows :: "nat option"
  alive :: "int \<Rightarrow> bool"
  now :: string
  date_value :: "string \<Rightarrow> int"
  ws_open :: "nat \<Rightarrow> bool"
  publicDir :: string

section \<open>The PTY session owner (tm-wrapper.js)\<close>

text \<open>
  Frames of the IPC channel. On the wire a frame is one line of JSON and the payloads of
  \<open>scrollback\<close> and \<open>output\<close> are base64 text; the model keeps the frame and the
  payload bytes. The child's output chunks are taken as the bytes \<open>Buffer.from(data, 'utf-8')\<close>
  yields.
\<close>

record hello_info =
  h_cwd :: string
  h_cols :: nat
  h_rows :: nat
  h_pid :: nat
  h_cmd :: string
  h_startedAt :: string

datatype frame =
    Hello hello_info
  | Scrollback "byte list"
  | Output "byte list"
  | Resize nat nat
  | Exit int
  | Input string

record pty =
  pty_cols :: nat
  pty_rows :: nat
  pty_written :: "string list"
  pty_signals :: "string list"

text \<open>
  The module-level state of the wrapper. \<open>socketClients\<close> is a JavaScript Set, kept in
  insertion order; \<open>wire\<close> logs every frame written to an IPC client, oldest first, with
  the client it was written to (a write that throws on a closing client is swallowed by
  the source; the log records the write all the same).
\<close>

record wrapper =
  command :: string
  commandArgs :: "string list"
  cols :: nat
  rows :: nat
  startedAt :: string
  ringBuffer :: RingBuffer
  ptyProcess :: "pty option"
  socketServer :: bool
  socketPath :: "string option"
  socketClients :: "nat list"
  cleaningUp :: bool
  exitScheduled :: "int option"
  wire :: "(nat \<times> frame) list"
  stdout :: "byte list"
  stderr :: "string list"

definition RING_BUFFER_SIZE :: nat where
  "RING_BUFFER_SIZE = 1 * 1024 * 1024"

text \<open>\<open>x || d\<close> on a possibly undefined number: 0 and undefined give the default.\<close>

definition or_default :: "nat option \<Rightarrow> nat \<Rightarrow> nat" where
  "or_default x d = (case x of None \<Rightarrow> d | Some n \<Rightarrow> if n = 0 then d else n)"

definition initWrapper :: "host \<Rightarrow> string \<Rightarrow> string list \<Rightarrow> wrapper" where
  "initWrapper h cmd args =
     \<lparr> command = cmd, commandArgs = args,
       cols = or_default (stdout_columns h) 80, rows = or_default (stdout_rows h) 24,
       startedAt = now h,
       ringBuffer = newRingBuffer RING_BUFFER_SIZE,
       ptyProcess = None, socketServer = False, socketPath = None, socketClients = [],
       cleaningUp = False, exitScheduled = None, wire = [], stdout = [], stderr = [] \<rparr>"

definition sendToClient :: "wrapper \<Rightarrow> nat \<Rightarrow> frame \<Rightarrow> wrapper" where
  "sendToClient w client obj = w\<lparr> wire := wire w @ [(client, obj)] \<rparr>"

definition broadcastToMirrors :: "wrapper \<Rightarrow> frame \<Rightarrow> wrapper" where
  "broadcastToMirrors w obj = w\<lparr> wire := wire w @ map (\<lambda>client. (client, obj)) (socketClients w) \<rparr>"

definition set_add :: "'a \<Rightarrow> 'a list \<Rightarrow> 'a list" where
  "set_add x xs = (if x \<in> set xs then xs else xs @ [x])"

definition set_delete :: "'a \<Rightarrow> 'a list \<Rightarrow> 'a list" where
  "set_delete x xs = filter (\<lambda>y. y \<noteq> x) xs"

text \<open>
  \<open>startSocketServer\<close>: the endpoint path is built from the process id, a stale node at
  that path is unlinked (errors swallowed), and the server binds the path. Binding is
  asynchronous in Node; the model lets it complete at once. The function writes nothing
  else to the file system.
\<close>

definition socket_path_of :: "host \<Rightarrow> string" where
  "socket_path_of h = path_join (tmpdir h) (''tm-'' @ string_of_nat (hpid h) @ ''.sock'')"

definition startSocketServer :: "host \<Rightarrow> wrapper \<Rightarrow> host \<times> wrapper" where
  "startSocketServer h w =
     (let sp = socket_path_of h;
          f1 = (case unlinkSync (files h) sp of Inl _ \<Rightarrow> files h | Inr f \<Rightarrow> f)
      in case listen_unix f1 sp of
           Inr f2 \<Rightarrow> (h\<lparr> files := f2 \<rparr>,
                      w\<lparr> socketPath := Some sp, socketServer := True,
                         stderr := stderr w @ [''TM_SOCKET='' @ sp] \<rparr>)
         | Inl e \<Rightarrow> (h\<lparr> files := f1 \<rparr>,
                     w\<lparr> socketPath := Some sp, socketServer := False,
                        stderr := stderr w @ [''Socket server error''] \<rparr>))"

definition spawnPty :: "wrapper \<Rightarrow> wrapper" where
  "spawnPty w = w\<lparr> ptyProcess := Some \<lparr> pty_cols = cols w, pty_rows = rows w,
                                        pty_written = [], pty_signals = [] \<rparr> \<rparr>"

text \<open>The last two lines of the script: \<open>startSocketServer(); spawnPty();\<close>.\<close>

definition wrapper_start :: "host \<Rightarrow> string \<Rightarrow> string list \<Rightarrow> host \<times> wrapper" where
  "wrapper_start h cmd args =
     (let (h', w) = startSocketServer h (initWrapper h cmd args) in (h', spawnPty w))"

text \<open>The callback of \<open>net.createServer\<close>, run for each new IPC client.\<close>

definition hello_of :: "host \<Rightarrow> wrapper \<Rightarrow> hello_info" where
  "hello_of h w =
     \<lparr> h_cwd = pcwd h,
       h_cols = (case ptyProcess w of Some p \<Rightarrow> pty_cols p | None \<Rightarrow> cols w),
       h_rows = (case ptyProcess w of Some p \<Rightarrow> pty_rows p | None \<Rightarrow> rows w),
       h_pid = hpid h,
       h_cmd = join_sep '' '' (command w # commandArgs w),
       h_startedAt = startedAt w \<rparr>"

definition on_connection :: "host \<Rightarrow> wrapper \<Rightarrow> nat \<Rightarrow> wrapper" where
  "on_connection h w client =
     (let w1 = w\<lparr> socketClients := set_add client (socketClients w) \<rparr>;
          w2 = sendToClient w1 client (Hello (hello_of h w1));
          scrollback = getContents (ringBuffer w2)
      in if length scrollback > 0 then sendToClient w2 client (Scrollback scrollback) else w2)"

text \<open>\<open>ptyProcess.onData\<close>: local echo, ring buffer, then the \<open>output\<close> broadcast.\<close>

definition on_pty_data :: "wrapper \<Rightarrow> byte list \<Rightarrow> wrapper" where
  "on_pty_data w d =
     (let w1 = w\<lparr> stdout := stdout w @ d \<rparr>;
          w2 = w1\<lparr> ringBuffer := rb_write (ringBuffer w1) d \<rparr>
      in broadcastToMirrors w2 (Output d))"

text \<open>
  \<open>cleanup\<close> runs once: it ends the clients, closes the server, unlinks the endpoint
  (errors swallowed) and schedules the exit. Ending the clients and restoring the
  terminal are not represented.
\<close>

definition cleanup :: "host \<Rightarrow> wrapper \<Rightarrow> int \<Rightarrow> host \<times> wrapper" where
  "cleanup h w exitCode =
     (if cleaningUp w then (h, w)
      else let f1 = (case socketPath w of
                       None \<Rightarrow> files h
                     | Some sp \<Rightarrow> (case unlinkSync (files h) sp of Inl _ \<Rightarrow> files h | Inr f \<Rightarrow> f))
           in (h\<lparr> files := f1 \<rparr>,
               w\<lparr> cleaningUp := True, socketServer := False, exitScheduled := Some exitCode \<rparr>))"

definition on_pty_exit :: "host \<Rightarrow> wrapper \<Rightarrow> int \<Rightarrow> host \<times> wrapper" where
  "on_pty_exit h w exitCode = cleanup h (broadcastToMirrors w (Exit exitCode)) exitCode"

definition on_resize :: "wrapper \<Rightarrow> nat \<Rightarrow> nat \<Rightarrow> wrapper" where
  "on_resize w newCols newRows =
     (let w1 = (case ptyProcess w of
                  None \<Rightarrow> w
                | Some p \<Rightarrow> w\<lparr> ptyProcess := Some (p\<lparr> pty_cols := newCols, pty_rows := newRows \<rparr>) \<rparr>)
      in broadcastToMirrors w1 (Resize newCols newRows))"

text \<open>
  \<open>handleClientMessage\<close>: only \<open>input\<close> with a non-empty payload reaches the
  pseudo-terminal. \<open>None\<close> stands for a line that is not a JSON object with a type.
\<close>

definition handleClientMessage :: "wrapper \<Rightarrow> frame option \<Rightarrow> wrapper" where
  "handleClientMessage w msg =
     (case msg of
        Some (Input d) \<Rightarrow>
          (case ptyProcess w of
             Some p \<Rightarrow> if d \<noteq> [] then w\<lparr> ptyProcess := Some (p\<lparr> pty_written := pty_written p @ [d] \<rparr>) \<rparr> else w
           | None \<Rightarrow> w)
      | _ \<Rightarrow> w)"

definition on_sigint :: "host \<Rightarrow> wrapper \<Rightarrow> host \<times> wrapper" where
  "on_sigint h w =
     (case ptyProcess w of
        Some p \<Rightarrow> (h, w\<lparr> ptyProcess := Some (p\<lparr> pty_signals := pty_signals p @ [''SIGINT''] \<rparr>) \<rparr>)
      | None \<Rightarrow> cleanup h w 130)"

datatype wevent =
    Connection nat
  | PtyData "byte list"
  | PtyExit int
  | StdoutResize nat nat
  | ClientMessage nat "frame option"
  | ClientClose nat
  | Sigint
  | SigintGraceOver
  | Sigterm

fun wrapper_step :: "host \<times> wrapper \<Rightarrow> wevent \<Rightarrow> host \<times> wrapper" where
  "wrapper_step (h, w) (Connection c) = (h, on_connection h w c)"
| "wrapper_step (h, w) (PtyData d) = (h, on_pty_data w d)"
| "wrapper_step (h, w) (PtyExit code) = on_pty_exit h w code"
| "wrapper_step (h, w) (StdoutResize c r) = (h, on_resize w c r)"
| "wrapper_step (h, w) (ClientMessage c m) = (h, handleClientMessage w m)"
| "wrapper_step (h, w) (ClientClose c) = (h, w\<lparr> socketClients := set_delete c (socketClients w) \<rparr>)"
| "wrapper_step (h, w) Sigint = on_sigint h w"
| "wrapper_step (h, w) SigintGraceOver = (if cleaningUp w then (h, w) else cleanup h w 130)"
| "wrapper_step (h, w) Sigterm = cleanup h w 0"

definition wrapper_run :: "host \<times> wrapper \<Rightarrow> wevent list \<Rightarrow> host \<times> wrapper" where
  "wrapper_run = foldl wrapper_step"

text \<open>The frames written to one IPC client, oldest first.\<close>

definition outbox :: "nat \<Rightarrow> wrapper \<Rightarrow> frame list" where
  "outbox client w = map snd (filter (\<lambda>e. fst e = client) (wire w))"

section \<open>The relay (mirror-server.js, multi-session)\<close>

definition START_PORT :: nat where "START_PORT = 3456"
definition MAX_PORT_SCAN :: nat where "MAX_PORT_SCAN = 100"
definition POLL_TIMEOUT_MS :: nat where "POLL_TIMEOUT_MS = 120000"
definition MAX_FILE_READ_BYTES :: nat where "MAX_FILE_READ_BYTES = 2 * 1024 * 1024"
definition MAX_SELECTED_TEXT :: nat where "MAX_SELECTED_TEXT = 80"
definition MAX_MESSAGE_QUEUE :: nat where "MAX_MESSAGE_QUEUE = 100"
definition SOCKET_RECONNECT_MS :: nat where "SOCKET_RECONNECT_MS = 3000"
definition SOCKET_RECONNECT_MAX :: nat where "SOCKET_RECONNECT_MAX = 10"
definition SESSION_SCAN_INTERVAL_MS :: nat where "SESSION_SCAN_INTERVAL_MS = 5000"

subsection \<open>Sessions, messages and effects\<close>

text \<open>A mailbox entry \<open>{ text, at }\<close>.\<close>

record entry =
  e_text :: string
  e_at :: string

record wrapperInfo =
  wi_cwd :: string
  wi_cols :: nat
  wi_rows :: nat
  wi_pid :: int
  wi_cmd :: string
  wi_startedAt :: "string option"

text \<open>
  The object \<open>createSession\<close> returns. The two client Sets and the waiter array hold
  handles (numbers naming the WebSocket and response objects); a waiter's timer is named
  by its response handle. \<open>socket\<close> names the current \<open>net.Socket\<close>, if any.
\<close>

record session =
  pid :: int
  sockPath :: string
  socket :: "nat option"
  connected :: bool
  wrapperInfo :: wrapperInfo
  wrapperToken :: "string option"
  lineBuf :: string
  reconnects :: nat
  terminalClients :: "nat list"
  commentClients :: "nat list"
  messageQueue :: "entry list"
  pollWaiters :: "nat list"

definition createSession :: "host \<Rightarrow> int \<Rightarrow> string \<Rightarrow> session" where
  "createSession h p sp =
     \<lparr> pid = p, sockPath = sp, socket = None, connected = False,
       wrapperInfo = \<lparr> wi_cwd = pcwd h, wi_cols = 80, wi_rows = 24, wi_pid = p, wi_cmd = [],
                       wi_startedAt = None \<rparr>,
       wrapperToken = None, lineBuf = [], reconnects = 0,
       terminalClients = [], commentClients = [], messageQueue = [], pollWaiters = [] \<rparr>"

text \<open>One comment of a submit body and the body itself, after \<open>JSON.parse\<close>.\<close>

record comment =
  selectedText :: string
  comment_text :: string

record submit_body =
  comments :: "comment list"
  message :: string
  batchId :: "string option"

record session_row =
  r_pid :: int
  r_cmd :: string
  r_cwd :: string
  r_startedAt :: "string option"
  r_connected :: bool

record status_row =
  st_cols :: nat
  st_rows :: nat
  st_pid :: int
  st_wrapperConnected :: bool
  st_cmd :: string

text \<open>Response bodies, before \<open>JSON.stringify\<close>.\<close>

datatype body =
    JError string
  | JSuccess
  | JDone
  | JEntry entry
  | JSessions "session_row list"
  | JStatus status_row
  | JMessages "entry list"
  | JFile string string string
  | Raw string string
  | Plain string
  | NoBody

datatype wsmsg =
    WsResize nat nat
  | WsWrapperStatus bool "int option"
  | WsBinary "byte list"
  | WsComments "(comment \<times> string) list" "string option"
  | WsShutdown

datatype timer = PollTimer int nat | ReconnectTimer int | CleanupTimer int | ExitTimer int

datatype exn = RangeError | NoAvailablePort | ListenFailed errno

text \<open>
  What a handler does to the outside, in order: an HTTP response on a response handle, a
  WebSocket send, a timer set or cleared, a new connection to a wrapper endpoint, a
  write to a wrapper socket, the end of a wrapper socket, the closing of a WebSocket, raw
  bytes on an upgrade socket and its destruction, an
  accepted upgrade, a line on standard error, an error printed by \<open>console.error\<close>, an
  exception that leaves the handler, and the exit of the process.
\<close>

datatype effect =
    Respond nat nat body
  | WsSend nat wsmsg
  | SetTimeout timer nat
  | ClearTimeout timer
  | CreateConnection int string nat
  | SocketWrite nat frame
  | SocketEnd nat
  | WsClose nat
  | RawReply nat string
  | SocketDestroy nat
  | HandleUpgrade nat string
  | StderrWrite string
  | ConsoleError exn
  | Throw exn
  | ProcessExit nat

record relay =
  sessions :: "(int \<times> session) list"
  serverPort :: "nat option"
  masterToken :: "16 word list"
  remoteMode :: bool
  noOpen :: bool
  scanTimer :: bool
  nextHandle :: nat

text \<open>\<open>Map.prototype.get\<close>, \<open>has\<close> and \<open>set\<close> on the insertion-ordered session Map.\<close>

definition map_get :: "('k \<times> 'v) list \<Rightarrow> 'k \<Rightarrow> 'v option" where
  "map_get m k = map_of m k"

definition map_has :: "('k \<times> 'v) list \<Rightarrow> 'k \<Rightarrow> bool" where
  "map_has m k = (k \<in> fst ` set m)"

fun map_set :: "'k \<Rightarrow> 'v \<Rightarrow> ('k \<times> 'v) list \<Rightarrow> ('k \<times> 'v) list" where
  "map_set k v [] = [(k, v)]"
| "map_set k v (e # es) = (if fst e = k then (k, v) # es else e # map_set k v es)"

subsection \<open>Broadcast helpers\<close>

definition broadcastTerminalJSON :: "host \<Rightarrow> session \<Rightarrow> wsmsg \<Rightarrow> effect list" where
  "broadcastTerminalJSON h s obj = map (\<lambda>ws. WsSend ws obj) (filter (ws_open h) (terminalClients s))"

definition broadcastTerminalBinary :: "host \<Rightarrow> session \<Rightarrow> byte list \<Rightarrow> effect list" where
  "broadcastTerminalBinary h s b = map (\<lambda>ws. WsSend ws (WsBinary b)) (filter (ws_open h) (terminalClients s))"

definition broadcastCommentJSON :: "host \<Rightarrow> session \<Rightarrow> wsmsg \<Rightarrow> effect list" where
  "broadcastCommentJSON h s obj = map (\<lambda>ws. WsSend ws obj) (filter (ws_open h) (commentClients s))"

subsection \<open>The mailbox\<close>

text \<open>
  \<open>resolveNextPoll\<close>: while a waiter and a message are both present, the earliest waiter
  receives the earliest message.
\<close>

fun resolveNextPoll :: "nat list \<Rightarrow> entry list \<Rightarrow> int \<Rightarrow> effect list \<times> nat list \<times> entry list" where
  "resolveNextPoll (res # ws) (msg # q) p =
     (let (effs, ws', q') = resolveNextPoll ws q p
      in (ClearTimeout (PollTimer p res) # Respond res 200 (JEntry msg) # effs, ws', q'))"
| "resolveNextPoll ws q p = ([], ws, q)"

definition resolveNextPoll_session :: "session \<Rightarrow> effect list \<times> session" where
  "resolveNextPoll_session s =
     (let (effs, ws', q') = resolveNextPoll (pollWaiters s) (messageQueue s) (pid s)
      in (effs, s\<lparr> pollWaiters := ws', messageQueue := q' \<rparr>))"

text \<open>
  The text of a submission: one part per comment, prefixed by a reference to the first
  \<open>MAX_SELECTED_TEXT\<close> characters of the selected text when there is one, then the message
  when there is one, joined by blank lines.
\<close>

definition comment_part :: "comment \<Rightarrow> string" where
  "comment_part c =
     (if selectedText c \<noteq> []
        then ''[Re: '' @ [CHR 0x22] @ take MAX_SELECTED_TEXT (selectedText c) @ [CHR 0x22] @ ''] ''
        else []) @ comment_text c"

definition submit_text :: "submit_body \<Rightarrow> string" where
  "submit_text b =
     join_sep [CHR 0x0A, CHR 0x0A]
       (map comment_part (comments b) @ (if message b \<noteq> [] then [message b] else []))"

text \<open>
  The \<open>/api/submit\<close> handler for a found session. \<open>None\<close> is a body that \<open>readBody\<close>
  rejects (over \<open>MAX_BODY_BYTES\<close>) or that does not parse to an object of the expected
  shape: the \<open>catch\<close> branch.
\<close>

definition api_submit :: "host \<Rightarrow> nat \<Rightarrow> submit_body option \<Rightarrow> session \<Rightarrow> effect list \<times> session" where
  "api_submit h res b s =
     (case b of
        None \<Rightarrow> ([Respond res 400 (JError ''Invalid request'')], s)
      | Some bd \<Rightarrow>
          (let txt = submit_text bd in
           if txt \<noteq> [] then
             (let ent = \<lparr> e_text = txt, e_at = now h \<rparr>;
                  q1 = (if length (messageQueue s) \<ge> MAX_MESSAGE_QUEUE
                          then tl (messageQueue s) else messageQueue s);
                  s1 = s\<lparr> messageQueue := q1 @ [ent] \<rparr>;
                  (effs, s2) = resolveNextPoll_session s1;
                  bc = (if length (comments bd) > 0
                          then broadcastCommentJSON h s2
                                 (WsComments (map (\<lambda>c. (c, e_at ent)) (comments bd)) (batchId bd))
                          else [])
              in (effs @ bc @ [Respond res 200 JSuccess], s2))
           else ([Respond res 200 JSuccess], s)))"

text \<open>The \<open>/api/poll\<close> handler for a found session.\<close>

definition api_poll :: "nat \<Rightarrow> session \<Rightarrow> effect list \<times> session" where
  "api_poll res s =
     (case messageQueue s of
        msg # q \<Rightarrow> ([Respond res 200 (JEntry msg)], s\<lparr> messageQueue := q \<rparr>)
      | [] \<Rightarrow> ([SetTimeout (PollTimer (pid s) res) POLL_TIMEOUT_MS],
               s\<lparr> pollWaiters := pollWaiters s @ [res] \<rparr>))"

text \<open>
  \<open>findIndex\<close> followed by \<open>splice(idx, 1)\<close>: the first waiter with this response handle
  leaves the array.
\<close>

definition remove_waiter :: "nat \<Rightarrow> nat list \<Rightarrow> nat list" where
  "remove_waiter res ws = remove1 res ws"

text \<open>The poll timer firing, and the request closing while it waits.\<close>

definition poll_timeout :: "nat \<Rightarrow> session \<Rightarrow> effect list \<times> session" where
  "poll_timeout res s = ([Respond res 204 NoBody], s\<lparr> pollWaiters := remove_waiter res (pollWaiters s) \<rparr>)"

definition poll_closed :: "nat \<Rightarrow> session \<Rightarrow> effect list \<times> session" where
  "poll_closed res s =
     ([ClearTimeout (PollTimer (pid s) res)], s\<lparr> pollWaiters := remove_waiter res (pollWaiters s) \<rparr>)"

text \<open>The \<open>/api/messages\<close> handler for a found session: \<open>splice(0)\<close> empties the queue.\<close>

definition api_messages :: "nat \<Rightarrow> session \<Rightarrow> effect list \<times> session" where
  "api_messages res s = ([Respond res 200 (JMessages (messageQueue s))], s\<lparr> messageQueue := [] \<rparr>)"

text \<open>Calls on one session's mailbox, run in order; the effects are collected in order.\<close>

datatype call =
    Submit string "submit_body option" nat
  | Poll nat
  | Messages nat
  | PollTimeout nat
  | PollClosed nat

fun mailbox_call :: "host \<Rightarrow> call \<Rightarrow> session \<Rightarrow> effect list \<times> session" where
  "mailbox_call h (Submit t b res) s = api_submit (h\<lparr> now := t \<rparr>) res b s"
| "mailbox_call h (Poll res) s = api_poll res s"
| "mailbox_call h (Messages res) s = api_messages res s"
| "mailbox_call h (PollTimeout res) s = poll_timeout res s"
| "mailbox_call h (PollClosed res) s = poll_closed res s"

fun mailbox_run :: "host \<Rightarrow> call list \<Rightarrow> session \<Rightarrow> effect list \<times> session" where
  "mailbox_run h [] s = ([], s)"
| "mailbox_run h (c # cs) s =
     (let (e1, s1) = mailbox_call h c s; (e2, s2) = mailbox_run h cs s1 in (e1 @ e2, s2))"

subsection \<open>Authentication\<close>

text \<open>
  Tokens are JavaScript strings: sequences of UTF-16 code units, whose \<open>length\<close> counts
  code units. \<open>Buffer.from(string)\<close> encodes them as UTF-8: one byte for a unit below
  \<open>0x80\<close>, two below \<open>0x800\<close>, three for the other units (an unpaired surrogate becomes
  the replacement character \<open>EF BF BD\<close>), four for a surrogate pair.
\<close>

definition ascii :: "string \<Rightarrow> 16 word list" where
  "ascii s = map (\<lambda>c. of_nat (of_char c)) s"

definition is_high_surrogate :: "16 word \<Rightarrow> bool" where
  "is_high_surrogate c = (0xD800 \<le> c \<and> c \<le> 0xDBFF)"

definition is_low_surrogate :: "16 word \<Rightarrow> bool" where
  "is_low_surrogate c = (0xDC00 \<le> c \<and> c \<le> 0xDFFF)"

definition utf8_of_codepoint :: "nat \<Rightarrow> byte list" where
  "utf8_of_codepoint n =
     (if n < 0x80 then [of_nat n]
      else if n < 0x800 then [of_nat (0xC0 + n div 64), of_nat (0x80 + n mod 64)]
      else if n < 0x10000 then
        [of_nat (0xE0 + n div 4096), of_nat (0x80 + (n div 64) mod 64), of_nat (0x80 + n mod 64)]
      else
        [of_nat (0xF0 + n div 262144), of_nat (0x80 + (n div 4096) mod 64),
         of_nat (0x80 + (n div 64) mod 64), of_nat (0x80 + n mod 64)])"

definition utf8_of_unit :: "16 word \<Rightarrow> byte list" where
  "utf8_of_unit c =
     (if is_high_surrogate c \<or> is_low_surrogate c then [0xEF, 0xBF, 0xBD]
      else utf8_of_codepoint (unat c))"

fun utf8_encode :: "16 word list \<Rightarrow> byte list" where
  "utf8_encode [] = []"
| "utf8_encode [c] = utf8_of_unit c"
| "utf8_encode (c # d # cs) =
     (if is_high_surrogate c \<and> is_low_surrogate d
        then utf8_of_codepoint (0x10000 + (unat c - 0xD800) * 1024 + (unat d - 0xDC00)) @ utf8_encode cs
      else utf8_of_unit c @ utf8_encode (d # cs))"

text \<open>
  \<open>crypto.timingSafeEqual\<close> throws a RangeError when its arguments differ in byte
  length, and compares them otherwise.
\<close>

definition timingSafeEqual :: "byte list \<Rightarrow> byte list \<Rightarrow> exn + bool" where
  "timingSafeEqual a b = (if length a \<noteq> length b then Inl RangeError else Inr (a = b))"

text \<open>\<open>isValidToken\<close>, with the master token as a parameter.\<close>

definition isValidToken :: "16 word list \<Rightarrow> 16 word list \<Rightarrow> exn + bool" where
  "isValidToken master candidate =
     (if candidate = [] \<or> length candidate \<noteq> length master then Inr False
      else timingSafeEqual (utf8_encode candidate) (utf8_encode master))"

text \<open>
  The master token is \<open>crypto.randomBytes(24).toString('hex')\<close>: 48 hexadecimal digits.
\<close>

definition hex_token :: "16 word list \<Rightarrow> bool" where
  "hex_token t = (length t = 48 \<and> (\<forall>c \<in> set t. c \<in> set (ascii ''0123456789abcdef'')))"

subsection \<open>Requests\<close>

text \<open>
  A request after \<open>new URL(req.url, ...)\<close>: the method, the path name, the
  \<open>authorization\<close> and \<open>origin\<close> headers, the first value of each query parameter the
  server reads, and for \<open>/api/submit\<close> the parsed body.
\<close>

datatype http_method = GET | POST | OPTIONS | OTHER

record request =
  rmethod :: http_method
  pathname :: string
  authorization :: "16 word list option"
  origin :: "string option"
  q_token :: "16 word list option"
  q_session :: "string option"
  q_path :: "string option"
  rbody :: "submit_body option"

definition extractToken :: "request \<Rightarrow> 16 word list" where
  "extractToken req =
     (let authHeader = (case authorization req of None \<Rightarrow> [] | Some a \<Rightarrow> a)
      in if prefix (ascii ''Bearer '') authHeader then drop 7 authHeader
         else (case q_token req of None \<Rightarrow> [] | Some t \<Rightarrow> t))"

definition rejectUnauthorized :: "nat \<Rightarrow> effect list" where
  "rejectUnauthorized res = [Respond res 401 (JError ''Unauthorized'')]"

text \<open>
  \<open>parseInt(s, 10)\<close>: leading white space is skipped, a sign is read, then the longest
  run of decimal digits; no digit gives NaN (\<open>None\<close>). The result is kept exact (a
  JavaScript number rounds beyond \<open>2^53\<close>); only ASCII white space is represented.
\<close>

definition is_space :: "char \<Rightarrow> bool" where
  "is_space c = (c \<in> set [CHR 0x09, CHR 0x0A, CHR 0x0B, CHR 0x0C, CHR 0x0D, CHR 0x20])"

definition is_digit :: "char \<Rightarrow> bool" where
  "is_digit c = (48 \<le> (of_char c :: nat) \<and> (of_char c :: nat) \<le> 57)"

definition digits_value :: "string \<Rightarrow> nat" where
  "digits_value ds = foldl (\<lambda>a c. 10 * a + (of_char c - 48)) 0 ds"

definition parseInt10 :: "string \<Rightarrow> int option" where
  "parseInt10 s =
     (let s1 = dropWhile is_space s;
          neg = (case s1 of c # _ \<Rightarrow> c = CHR ''-'' | [] \<Rightarrow> False);
          s2 = (case s1 of c # t \<Rightarrow> if c = CHR ''-'' \<or> c = CHR ''+'' then t else s1 | [] \<Rightarrow> s1);
          ds = takeWhile is_digit s2
      in if ds = [] then None
         else Some (if neg then - int (digits_value ds) else int (digits_value ds)))"

definition getSessionFromQuery :: "relay \<Rightarrow> request \<Rightarrow> (int \<times> session) option" where
  "getSessionFromQuery r req =
     (case q_session req of
        None \<Rightarrow> None
      | Some pidStr \<Rightarrow>
          if pidStr = [] then None
          else (case parseInt10 pidStr of
                  None \<Rightarrow> None
                | Some p \<Rightarrow> (case map_get (sessions r) p of None \<Rightarrow> None | Some s \<Rightarrow> Some (p, s))))"

definition put_session :: "relay \<Rightarrow> int \<Rightarrow> session \<Rightarrow> relay" where
  "put_session r p s = r\<lparr> sessions := map_set p s (sessions r) \<rparr>"

definition missing_session :: "nat \<Rightarrow> effect list" where
  "missing_session res = [Respond res 400 (JError ''Missing or invalid session parameter'')]"

subsection \<open>The routes\<close>

text \<open>
  \<open>GET /api/sessions\<close>: one row per entry of the session Map, then sorted by start time,
  most recent first, rows without a start time last. The comparator is a weak order when
  every time stamp parses, so the stable sort is determined: the rows with a time stamp,
  stably sorted by descending time, followed by the others in Map order.
\<close>

definition session_rows :: "(int \<times> session) list \<Rightarrow> session_row list" where
  "session_rows m =
     map (\<lambda>(p, s). \<lparr> r_pid = p, r_cmd = wi_cmd (wrapperInfo s), r_cwd = wi_cwd (wrapperInfo s),
                     r_startedAt = wi_startedAt (wrapperInfo s), r_connected = connected s \<rparr>) m"

definition has_start :: "session_row \<Rightarrow> bool" where
  "has_start row = (case r_startedAt row of None \<Rightarrow> False | Some d \<Rightarrow> d \<noteq> [])"

definition sort_rows :: "host \<Rightarrow> session_row list \<Rightarrow> session_row list" where
  "sort_rows h rws =
     sort_key (\<lambda>row. case r_startedAt row of None \<Rightarrow> 0 | Some d \<Rightarrow> - date_value h d) (filter has_start rws)
     @ filter (\<lambda>row. \<not> has_start row) rws"

definition api_sessions :: "host \<Rightarrow> relay \<Rightarrow> nat \<Rightarrow> effect list" where
  "api_sessions h r res = [Respond res 200 (JSessions (sort_rows h (session_rows (sessions r))))]"

definition api_status :: "relay \<Rightarrow> nat \<Rightarrow> request \<Rightarrow> effect list" where
  "api_status r res req =
     (case getSessionFromQuery r req of
        None \<Rightarrow> missing_session res
      | Some (p, s) \<Rightarrow>
          [Respond res 200 (JStatus \<lparr> st_cols = wi_cols (wrapperInfo s), st_rows = wi_rows (wrapperInfo s),
                                     st_pid = wi_pid (wrapperInfo s), st_wrapperConnected = connected s,
                                     st_cmd = wi_cmd (wrapperInfo s) \<rparr>)])"

text \<open>
  \<open>GET /api/file\<close>. The path parameter is expanded (\<open>~/\<close> to the home directory) and
  resolved against the session's working directory, or the relay's when no session is
  named; the resolved path is then read as it is.
\<close>

definition api_file :: "host \<Rightarrow> relay \<Rightarrow> nat \<Rightarrow> request \<Rightarrow> effect list" where
  "api_file h r res req =
     (let cwd = (case getSessionFromQuery r req of None \<Rightarrow> pcwd h | Some (p, s) \<Rightarrow> wi_cwd (wrapperInfo s))
      in case q_path req of
           None \<Rightarrow> [Respond res 400 (JError ''Missing path parameter'')]
         | Some fp \<Rightarrow>
             if fp = [] then [Respond res 400 (JError ''Missing path parameter'')]
             else
               (let filePath = (if prefix ''~/'' fp then path_join (homedir h) (drop 2 fp) else fp);
                    resolved = path_resolve (pcwd h) cwd filePath
                in case statSync (files h) resolved of
                     Inl _ \<Rightarrow> [Respond res 404 (JError ''File not found'')]
                   | Inr st \<Rightarrow>
                       if \<not> isFile st then [Respond res 400 (JError ''Not a file'')]
                       else if size st > MAX_FILE_READ_BYTES
                         then [Respond res 413 (JError ''File too large (>2MB)'')]
                       else (case readFileSync (files h) resolved of
                               Inl _ \<Rightarrow> [Respond res 404 (JError ''File not found'')]
                             | Inr content \<Rightarrow>
                                 [Respond res 200
                                    (JFile resolved (path_relative (pcwd h) cwd resolved) content)])))"

text \<open>Static assets: \<open>path.extname\<close> picks the content type.\<close>

definition extname :: "string \<Rightarrow> string" where
  "extname p =
     (let base = last (split_slash [] p);
          stem = rev (dropWhile (\<lambda>c. c \<noteq> CHR ''.'') (rev base))
      in if length stem \<le> 1 \<or> base = ''..'' then [] else drop (length stem - 1) base)"

definition MIME_TYPES :: "string \<Rightarrow> string" where
  "MIME_TYPES ext =
     (if ext = ''.html'' then ''text/html; charset=utf-8''
      else if ext = ''.css'' then ''text/css; charset=utf-8''
      else if ext = ''.js'' then ''application/javascript; charset=utf-8''
      else ''application/octet-stream'')"

definition serve_static :: "host \<Rightarrow> nat \<Rightarrow> request \<Rightarrow> effect list" where
  "serve_static h res req =
     (let requestedFile = (if pathname req = ''/'' then ''index.html'' else drop 1 (pathname req));
          filePath = path_resolve (pcwd h) (publicDir h) requestedFile
      in if filePath \<noteq> publicDir h \<and> \<not> prefix (publicDir h @ ''/'') filePath
           then [Respond res 403 (Plain ''Forbidden'')]
         else (case readFileSync (files h) filePath of
                 Inr content \<Rightarrow> [Respond res 200 (Raw (MIME_TYPES (extname filePath)) content)]
               | Inl _ \<Rightarrow> [Respond res 404 (Plain ''Not Found'')]))"

text \<open>The routes behind the token gate, in the order of the source.\<close>

definition on_session :: "relay \<Rightarrow> nat \<Rightarrow> request \<Rightarrow> (session \<Rightarrow> effect list \<times> session) \<Rightarrow> effect list \<times> relay" where
  "on_session r res req f =
     (case getSessionFromQuery r req of
        None \<Rightarrow> (missing_session res, r)
      | Some (p, s) \<Rightarrow> (let (effs, s') = f s in (effs, put_session r p s')))"

definition routes :: "host \<Rightarrow> relay \<Rightarrow> nat \<Rightarrow> request \<Rightarrow> effect list \<times> relay" where
  "routes h r res req =
     (if rmethod req = GET \<and> pathname req = ''/api/sessions'' then (api_sessions h r res, r)
      else if rmethod req = GET \<and> pathname req = ''/api/status'' then (api_status r res req, r)
      else if rmethod req = POST \<and> pathname req = ''/api/submit''
        then on_session r res req (api_submit h res (rbody req))
      else if rmethod req = GET \<and> pathname req = ''/api/poll'' then on_session r res req (api_poll res)
      else if rmethod req = GET \<and> pathname req = ''/api/messages''
        then on_session r res req (api_messages res)
      else if rmethod req = POST \<and> pathname req = ''/api/done''
        then ([Respond res 200 JSuccess, SetTimeout (CleanupTimer 0) 100], r)
      else if rmethod req = GET \<and> pathname req = ''/api/file'' then (api_file h r res req, r)
      else if rmethod req = GET then (serve_static h res req, r)
      else ([Respond res 404 (Plain ''Not Found'')], r))"

text \<open>
  The request listener of \<open>http.createServer\<close>: the preflight answer, the token gate for
  every path under \<open>/api/\<close>, then the routes. An exception thrown by \<open>isValidToken\<close>
  leaves the listener. The CORS headers, set on every response before anything else, are
  not represented.
\<close>

definition httpServer :: "host \<Rightarrow> relay \<Rightarrow> nat \<Rightarrow> request \<Rightarrow> effect list \<times> relay" where
  "httpServer h r res req =
     (if rmethod req = OPTIONS then ([Respond res 204 NoBody], r)
      else if prefix ''/api/'' (pathname req) then
        (case isValidToken (masterToken r) (extractToken req) of
           Inl e \<Rightarrow> ([Throw e], r)
         | Inr ok \<Rightarrow> if \<not> ok then (rejectUnauthorized res, r) else routes h r res req)
      else routes h r res req)"

text \<open>
  The \<open>upgrade\<close> listener: the origin check, the token check on the query parameter, the
  session lookup, then the two WebSocket endpoints. The lookup is written out in the
  source; it finds what \<open>getSessionFromQuery\<close> finds, since no key of the session Map
  is NaN. The accepted WebSocket is named by the handle of the socket it was upgraded
  from; its \<open>message\<close>, \<open>close\<close> and \<open>error\<close> listeners are not represented.
\<close>

definition port_string :: "nat option \<Rightarrow> string" where
  "port_string p = (case p of None \<Rightarrow> ''null'' | Some n \<Rightarrow> string_of_nat n)"

definition on_upgrade :: "host \<Rightarrow> relay \<Rightarrow> nat \<Rightarrow> request \<Rightarrow> effect list \<times> relay" where
  "on_upgrade h r sock req =
     (let org = (case origin req of None \<Rightarrow> [] | Some x \<Rightarrow> x) in
      if \<not> remoteMode r \<and> org \<noteq> [] \<and> org \<noteq> ''http://localhost:'' @ port_string (serverPort r)
        then ([RawReply sock ''HTTP/1.1 403 Forbidden'', SocketDestroy sock], r)
      else
        (case isValidToken (masterToken r) (case q_token req of None \<Rightarrow> [] | Some t \<Rightarrow> t) of
           Inl e \<Rightarrow> ([Throw e], r)
         | Inr ok \<Rightarrow>
             if \<not> ok then ([RawReply sock ''HTTP/1.1 401 Unauthorized'', SocketDestroy sock], r)
             else
               (case getSessionFromQuery r req of
                  None \<Rightarrow> ([RawReply sock ''HTTP/1.1 400 Bad Request'', SocketDestroy sock], r)
                | Some (p, s) \<Rightarrow>
                    if pathname req = ''/ws/terminal'' then
                      ([HandleUpgrade sock ''/ws/terminal'',
                        WsSend sock (WsResize (wi_cols (wrapperInfo s)) (wi_rows (wrapperInfo s))),
                        WsSend sock (WsWrapperStatus (connected s) None)],
                       put_session r p (s\<lparr> terminalClients := set_add sock (terminalClients s) \<rparr>))
                    else if pathname req = ''/ws/comments'' then
                      ([HandleUpgrade sock ''/ws/comments''],
                       put_session r p (s\<lparr> commentClients := set_add sock (commentClients s) \<rparr>))
                    else ([SocketDestroy sock], r))))"

subsection \<open>Session discovery\<close>

text \<open>
  \<open>scanForWrappers\<close>: every entry \<open>tm-<digits...>.sock\<close> of the temporary directory is
  probed; a live process id is recorded with its endpoint path, the endpoint of a dead
  one is unlinked (errors swallowed). A directory that cannot be listed gives no result.
\<close>

definition ends_with :: "string \<Rightarrow> string \<Rightarrow> bool" where
  "ends_with suf s = suffix suf s"

definition scan_entry :: "host \<Rightarrow> string \<Rightarrow> (int \<times> string) list \<times> fs \<Rightarrow> (int \<times> string) list \<times> fs" where
  "scan_entry h ent st =
     (let (found, f) = st in
      if prefix ''tm-'' ent \<and> ends_with ''.sock'' ent then
        (let sp = path_join (tmpdir h) ent;
             pidStr = take (length ent - 3 - 5) (drop 3 ent)
         in case parseInt10 pidStr of
              None \<Rightarrow> (found, f)
            | Some p \<Rightarrow>
                if alive h p then (map_set p sp found, f)
                else (found, (case unlinkSync f sp of Inl _ \<Rightarrow> f | Inr f' \<Rightarrow> f')))
      else (found, f))"

definition scanForWrappers :: "host \<Rightarrow> (int \<times> string) list \<times> host" where
  "scanForWrappers h =
     (case readdirSync (files h) (tmpdir h) of
        Inl _ \<Rightarrow> ([], h)
      | Inr ents \<Rightarrow>
          (let (found, f) = foldl (\<lambda>st ent. scan_entry h ent st) ([], files h) ents
           in (found, h\<lparr> files := f \<rparr>)))"

subsection \<open>The connection manager\<close>

text \<open>\<open>String.prototype.trim\<close> (ASCII white space) and \<open>replace(/\.sock$/, '.token')\<close>.\<close>

definition trim :: "string \<Rightarrow> string" where
  "trim s = rev (dropWhile is_space (rev (dropWhile is_space s)))"

definition token_path :: "string \<Rightarrow> string" where
  "token_path sp = (if ends_with ''.sock'' sp then take (length sp - 5) sp @ ''.token'' else sp)"

definition falsy :: "string option \<Rightarrow> bool" where
  "falsy x = (case x of None \<Rightarrow> True | Some v \<Rightarrow> v = [])"

text \<open>
  \<open>connectToWrapper\<close>: the session token is read from the sibling file when none is
  cached, then a new socket (handle \<open>sock\<close>) connects to the endpoint.
\<close>

definition connectToWrapper :: "host \<Rightarrow> session \<Rightarrow> nat \<Rightarrow> effect list \<times> session" where
  "connectToWrapper h s sock =
     (let s1 = (if falsy (wrapperToken s) \<and> sockPath s \<noteq> [] then
                  (case readFileSync (files h) (token_path (sockPath s)) of
                     Inr t \<Rightarrow> s\<lparr> wrapperToken := Some (trim t) \<rparr>
                   | Inl _ \<Rightarrow> s)
                else s)
      in ([StderrWrite ''Connecting to wrapper'', CreateConnection (pid s1) (sockPath s1) sock],
          s1\<lparr> socket := Some sock, lineBuf := [] \<rparr>))"

definition on_sock_connect :: "host \<Rightarrow> session \<Rightarrow> effect list \<times> session" where
  "on_sock_connect h s =
     (let s1 = s\<lparr> connected := True, reconnects := 0 \<rparr>
      in (StderrWrite ''Connected to wrapper'' # broadcastTerminalJSON h s1 (WsWrapperStatus True None), s1))"

text \<open>
  The retry decision shared by the \<open>close\<close> and \<open>error\<close> handlers: below the maximum,
  and only when the endpoint path can still be accessed, the counter grows by one and
  one reconnect is scheduled after \<open>SOCKET_RECONNECT_MS\<close>.
\<close>

definition retry :: "host \<Rightarrow> session \<Rightarrow> effect list \<times> session" where
  "retry h s =
     (if reconnects s < SOCKET_RECONNECT_MAX then
        (case accessSync (files h) (sockPath s) of
           Inr _ \<Rightarrow> ([SetTimeout (ReconnectTimer (pid s)) SOCKET_RECONNECT_MS],
                     s\<lparr> reconnects := reconnects s + 1 \<rparr>)
         | Inl _ \<Rightarrow> ([], s))
      else ([], s))"

definition on_sock_close :: "host \<Rightarrow> session \<Rightarrow> effect list \<times> session" where
  "on_sock_close h s =
     (let s1 = s\<lparr> connected := False, socket := None \<rparr>;
          (effs, s2) = retry h s1
      in (broadcastTerminalJSON h s1 (WsWrapperStatus False None)
            @ [StderrWrite ''Disconnected from wrapper''] @ effs, s2))"

definition on_sock_error :: "host \<Rightarrow> session \<Rightarrow> errno \<Rightarrow> effect list \<times> session" where
  "on_sock_error h s code =
     (if code = ENOENT \<or> code = ECONNREFUSED
        then retry h (s\<lparr> connected := False, socket := None \<rparr>)
      else ([], s))"

text \<open>Messages read from a wrapper socket, after line splitting and \<open>JSON.parse\<close>.\<close>

datatype wmsg =
    MHello "string option" "nat option" "nat option" "int option" "string option" "string option"
           "string option"
  | MScrollback "byte list"
  | MOutput "byte list"
  | MResize nat nat
  | MExit int
  | MOther

definition str_or :: "string option \<Rightarrow> string \<Rightarrow> string" where
  "str_or x d = (if falsy x then d else (case x of Some v \<Rightarrow> v | None \<Rightarrow> d))"

fun handleWrapperMessage :: "host \<Rightarrow> session \<Rightarrow> wmsg \<Rightarrow> effect list \<times> session" where
  "handleWrapperMessage h s (MHello c co ro p cm st tok) =
     (let info = \<lparr> wi_cwd = str_or c (pcwd h), wi_cols = or_default co 80, wi_rows = or_default ro 24,
                   wi_pid = (case p of None \<Rightarrow> pid s | Some n \<Rightarrow> if n = 0 then pid s else n),
                   wi_cmd = str_or cm [],
                   wi_startedAt = (if falsy st then None else st) \<rparr>;
          s1 = s\<lparr> wrapperInfo := info \<rparr>;
          s2 = (if \<not> falsy tok \<and> falsy (wrapperToken s1) then s1\<lparr> wrapperToken := tok \<rparr> else s1)
      in (broadcastTerminalJSON h s2 (WsResize (wi_cols info) (wi_rows info)), s2))"
| "handleWrapperMessage h s (MScrollback b) = (broadcastTerminalBinary h s b, s)"
| "handleWrapperMessage h s (MOutput b) = (broadcastTerminalBinary h s b, s)"
| "handleWrapperMessage h s (MResize c r) =
     (broadcastTerminalJSON h s (WsResize c r),
      s\<lparr> wrapperInfo := (wrapperInfo s)\<lparr> wi_cols := c, wi_rows := r \<rparr> \<rparr>)"
| "handleWrapperMessage h s (MExit code) =
     (broadcastTerminalJSON h s (WsWrapperStatus False (Some code)), s)"
| "handleWrapperMessage h s MOther = ([], s)"

definition sendToWrapper :: "session \<Rightarrow> frame \<Rightarrow> effect list" where
  "sendToWrapper s obj =
     (case socket s of Some sock \<Rightarrow> if connected s then [SocketWrite sock obj] else [] | None \<Rightarrow> [])"

text \<open>
  \<open>discoverAndConnect\<close>: a session is created and connected for every found process id
  that the session Map does not hold yet. The second loop of the source has an empty
  body. Nothing removes an entry from the session Map.
\<close>

definition connect_new :: "host \<Rightarrow> effect list \<times> relay \<Rightarrow> int \<times> string \<Rightarrow> effect list \<times> relay" where
  "connect_new h st e =
     (let (effs, r) = st; (p, sp) = e in
      if \<not> map_has (sessions r) p then
        (let (e1, s1) = connectToWrapper h (createSession h p sp) (nextHandle r)
         in (effs @ e1, r\<lparr> sessions := map_set p s1 (sessions r), nextHandle := nextHandle r + 1 \<rparr>))
      else (effs, r))"

definition discoverAndConnect :: "host \<Rightarrow> relay \<Rightarrow> effect list \<times> relay \<times> host" where
  "discoverAndConnect h r =
     (let (found, h') = scanForWrappers h;
          (effs, r') = foldl (connect_new h') ([], r) found
      in (effs, r', h'))"

text \<open>
  One session's connection manager as a transition system. Besides the session it
  tracks what the handlers have set in motion: the reconnect timers not yet fired, the
  sockets still connecting, those open, and the number of connection attempts made. An
  event is enabled only when its source exists; each event comes with the host as it is
  at that moment.
\<close>

record conn =
  c_session :: session
  c_timers :: nat
  c_connecting :: "nat list"
  c_open :: "nat list"
  c_attempts :: nat

datatype cevent =
    TimerFires nat
  | SockConnect nat
  | SockData nat wmsg
  | SockError nat errno
  | SockClose nat

definition scheduled :: "effect list \<Rightarrow> nat" where
  "scheduled effs = length (filter (\<lambda>e. case e of SetTimeout (ReconnectTimer _) _ \<Rightarrow> True | _ \<Rightarrow> False) effs)"

fun conn_step :: "host \<Rightarrow> conn \<Rightarrow> cevent \<Rightarrow> conn option" where
  "conn_step h c (TimerFires sock) =
     (if c_timers c = 0 then None
      else let (effs, s) = connectToWrapper h (c_session c) sock
           in Some (c\<lparr> c_session := s, c_timers := c_timers c - 1,
                       c_connecting := c_connecting c @ [sock], c_attempts := c_attempts c + 1 \<rparr>))"
| "conn_step h c (SockConnect sock) =
     (if sock \<notin> set (c_connecting c) then None
      else let (effs, s) = on_sock_connect h (c_session c)
           in Some (c\<lparr> c_session := s, c_connecting := remove1 sock (c_connecting c),
                       c_open := c_open c @ [sock] \<rparr>))"
| "conn_step h c (SockData sock m) =
     (if sock \<notin> set (c_open c) then None
      else let (effs, s) = handleWrapperMessage h (c_session c) m
           in Some (c\<lparr> c_session := s \<rparr>))"
| "conn_step h c (SockError sock code) =
     (if sock \<notin> set (c_connecting c) \<and> sock \<notin> set (c_open c) then None
      else let (effs, s) = on_sock_error h (c_session c) code
           in Some (c\<lparr> c_session := s, c_timers := c_timers c + scheduled effs \<rparr>))"
| "conn_step h c (SockClose sock) =
     (if sock \<notin> set (c_connecting c) \<and> sock \<notin> set (c_open c) then None
      else let (effs, s) = on_sock_close h (c_session c)
           in Some (c\<lparr> c_session := s, c_timers := c_timers c + scheduled effs,
                       c_connecting := remove1 sock (c_connecting c),
                       c_open := remove1 sock (c_open c) \<rparr>))"

fun conn_run :: "conn \<Rightarrow> (host \<times> cevent) list \<Rightarrow> conn option" where
  "conn_run c [] = Some c"
| "conn_run c ((h, ev) # evs) = (case conn_step h c ev of None \<Rightarrow> None | Some c' \<Rightarrow> conn_run c' evs)"

subsection \<open>Shutdown\<close>

text \<open>
  \<open>cleanup\<close> of the relay: the scan timer is cleared; in every session the open clients
  are told of the shutdown, all clients are closed, every waiting poll is answered with
  \<open>{ done: true }\<close>, and the wrapper socket is ended; then the exit is scheduled.
\<close>

definition cleanup_session :: "host \<Rightarrow> session \<Rightarrow> effect list \<times> session" where
  "cleanup_session h s =
     (map (\<lambda>ws. WsSend ws WsShutdown) (filter (ws_open h) (terminalClients s))
      @ map (\<lambda>ws. WsSend ws WsShutdown) (filter (ws_open h) (commentClients s))
      @ map WsClose (terminalClients s) @ map WsClose (commentClients s)
      @ concat (map (\<lambda>res. [ClearTimeout (PollTimer (pid s) res), Respond res 200 JDone]) (pollWaiters s))
      @ (case socket s of None \<Rightarrow> [] | Some sock \<Rightarrow> [SocketEnd sock]),
      s\<lparr> pollWaiters := [] \<rparr>)"

definition relay_cleanup :: "host \<Rightarrow> relay \<Rightarrow> int \<Rightarrow> effect list \<times> relay" where
  "relay_cleanup h r exitCode =
     (concat (map (\<lambda>(p, s). fst (cleanup_session h s)) (sessions r)) @ [SetTimeout (ExitTimer exitCode) 100],
      r\<lparr> scanTimer := False, sessions := map (\<lambda>(p, s). (p, snd (cleanup_session h s))) (sessions r) \<rparr>)"

subsection \<open>Port binding and start\<close>

text \<open>
  \<open>listenOnAvailablePort\<close>. \<open>tryListen\<close> is the host's answer for a port: \<open>None\<close> when
  the server now listens there, the error code otherwise. The result comes with the
  ports tried, in order.
\<close>

function listen_loop :: "(nat \<Rightarrow> errno option) \<Rightarrow> nat \<Rightarrow> nat \<Rightarrow> nat \<Rightarrow> nat list \<times> (exn + nat)" where
  "listen_loop tryListen startPort maxAttempts i =
     (if i < maxAttempts then
        (case tryListen (startPort + i) of
           None \<Rightarrow> ([startPort + i], Inr (startPort + i))
         | Some e \<Rightarrow>
             if e \<noteq> EADDRINUSE then ([startPort + i], Inl (ListenFailed e))
             else (let (tried, res) = listen_loop tryListen startPort maxAttempts (i + 1)
                   in ((startPort + i) # tried, res)))
      else ([], Inl NoAvailablePort))"
  by pat_completeness auto
termination
  by (relation "measure (\<lambda>(t, s, m, i). m - i)") auto

declare listen_loop.simps [simp del]

definition listenOnAvailablePort :: "(nat \<Rightarrow> errno option) \<Rightarrow> nat \<Rightarrow> nat \<Rightarrow> nat list \<times> (exn + nat)" where
  "listenOnAvailablePort tryListen startPort maxAttempts = listen_loop tryListen startPort maxAttempts 0"

text \<open>
  \<open>start().catch(err => { console.error(err); process.exit(1); })\<close>: a rejected port
  search ends the process with status 1; otherwise the port is recorded and announced,
  the first discovery runs and the periodic scan is armed. The lines that announce the
  token, the URL and the number of sessions, and the launch of the browser, are left out.
\<close>

definition start :: "(nat \<Rightarrow> errno option) \<Rightarrow> host \<Rightarrow> relay \<Rightarrow> effect list \<times> relay \<times> host" where
  "start tryListen h r =
     (case snd (listenOnAvailablePort tryListen START_PORT MAX_PORT_SCAN) of
        Inl err \<Rightarrow> ([ConsoleError err, ProcessExit 1], r, h)
      | Inr port \<Rightarrow>
          (let r1 = r\<lparr> serverPort := Some port \<rparr>;
               (effs, r2, h') = discoverAndConnect h r1
           in (StderrWrite (''PORT='' @ string_of_nat port) # effs, r2\<lparr> scanTimer := True \<rparr>, h')))"

section \<open>Observations and example states\<close>

text \<open>
  What the fields of a ring buffer say about the bytes written so far: the store has the
  size of the capacity, the counter is the number of bytes written, the cursor is inside
  the store; below the capacity the store starts with the bytes written and the cursor
  is their number; from the capacity on, the store read from the cursor round to the
  cursor is the last \<open>capacity\<close> bytes written; at exactly the capacity the cursor is at
  one of the two ends.
\<close>

definition rb_inv :: "RingBuffer \<Rightarrow> byte list \<Rightarrow> bool" where
  "rb_inv rb written \<longleftrightarrow>
     length (buf rb) = capacity rb \<and> totalWritten rb = length written \<and> writePos rb \<le> capacity rb \<and>
     (length written = capacity rb \<longrightarrow> writePos rb = 0 \<or> writePos rb = capacity rb) \<and>
     (if length written < capacity rb
        then writePos rb = length written \<and> take (length written) (buf rb) = written
      else drop (writePos rb) (buf rb) @ take (writePos rb) (buf rb) = last_n (capacity rb) written)"


text \<open>
  The mailbox entries a run has delivered, each with the response handle that received
  it, in order of delivery.
\<close>

fun deliveries :: "effect list \<Rightarrow> (nat \<times> entry) list" where
  "deliveries [] = []"
| "deliveries (Respond res st (JEntry m) # es) = (res, m) # deliveries es"
| "deliveries (e # es) = deliveries es"

text \<open>
  The entry a submission creates (none for a rejected body or an empty text), and the
  entries of a list of submissions, each given as time stamp, body and response handle.
\<close>

definition entry_of :: "string \<Rightarrow> submit_body option \<Rightarrow> entry list" where
  "entry_of t b =
     (case b of
        None \<Rightarrow> []
      | Some bd \<Rightarrow> if submit_text bd \<noteq> [] then [\<lparr> e_text = submit_text bd, e_at = t \<rparr>] else [])"

definition entries_of :: "(string \<times> submit_body option \<times> nat) list \<Rightarrow> entry list" where
  "entries_of subs = concat (map (\<lambda>(t, b, res). entry_of t b) subs)"

definition submit_calls :: "(string \<times> submit_body option \<times> nat) list \<Rightarrow> call list" where
  "submit_calls subs = map (\<lambda>(t, b, res). Submit t b res) subs"

text \<open>
  A host whose temporary directory is empty, running process 1234 on a terminal 100
  columns wide, and the wrapper state after \<open>tm bash\<close> has started there and the child
  has printed \<open>hi\<close>.
\<close>

definition example_host :: host where
  "example_host =
     \<lparr> files = [(''/tmp'', Directory)], tmpdir = ''/tmp'', homedir = ''/home/u'',
       pcwd = ''/home/u/proj'', hpid = 1234, stdout_columns = Some 100, stdout_rows = None,
       alive = (\<lambda>p. False), now = ''t0'', date_value = (\<lambda>d. 0), ws_open = (\<lambda>ws. True),
       publicDir = ''/opt/tm/public'' \<rparr>"

definition example_wrapper :: wrapper where
  "example_wrapper = on_pty_data (snd (wrapper_start example_host ''bash'' [])) [0x68, 0x69]"

definition message_body :: "string \<Rightarrow> submit_body" where
  "message_body m = \<lparr> comments = [], message = m, batchId = None \<rparr>"

text \<open>A session whose mailbox is at capacity, with nobody waiting.\<close>

definition full_session :: session where
  "full_session = (createSession example_host 7 ''/tmp/tm-7.sock'')
     \<lparr> messageQueue := replicate MAX_MESSAGE_QUEUE \<lparr> e_text = ''old'', e_at = ''t'' \<rparr> \<rparr>"

text \<open>
  The state of a new session's mailbox after a history of calls on it.
\<close>

definition reached :: "host \<Rightarrow> call list \<Rightarrow> int \<Rightarrow> string \<Rightarrow> session" where
  "reached h pre p sp = snd (mailbox_run h pre (createSession h p sp))"

text \<open>
  One submission more than the mailbox holds, with the texts 0 to 100, and as many polls.
\<close>

definition overflow_submissions :: "(string \<times> submit_body option \<times> nat) list" where
  "overflow_submissions = map (\<lambda>i. (''t'', Some (message_body (string_of_nat i)), i)) [0 ..< 101]"

definition overflow_polls :: "nat list" where
  "overflow_polls = map (\<lambda>i. 200 + i) [0 ..< 101]"

text \<open>
  A relay with the 48-digit master token \<open>0123456789abcdef\<close> repeated three times, tracking
  no session, and three hosts' answers to \<open>tryListen\<close>: every port in use; the first two
  ports from 3456 in use and the others free; the first two in use and the third refused
  with EACCES.
\<close>

definition example_token :: "16 word list" where
  "example_token = ascii ''0123456789abcdef0123456789abcdef0123456789abcdef''"

definition example_relay :: relay where
  "example_relay =
     \<lparr> sessions = [], serverPort = Some 3456, masterToken = example_token, remoteMode = False,
       noOpen = True, scanTimer = True, nextHandle = 0 \<rparr>"

definition all_busy :: "nat \<Rightarrow> errno option" where
  "all_busy p = Some EADDRINUSE"

definition two_busy :: "nat \<Rightarrow> errno option" where
  "two_busy p = (if p < 3458 then Some EADDRINUSE else None)"

definition denied_third :: "nat \<Rightarrow> errno option" where
  "denied_third p = (if p < 3458 then Some EADDRINUSE else Some EACCES)"

text \<open>
  A host with a readable \<open>/etc/passwd\<close>, a relay tracking session 7 (working directory
  \<open>/home/u/proj\<close>), and requests: an authenticated read of \<open>/etc/passwd\<close> through that
  session; a preflight request and an upgrade request from a foreign origin, both with a
  wrong token; a request whose token has the length of the master token and one
  non-ASCII code unit.
\<close>

definition file_host :: host where
  "file_host = example_host
     \<lparr> files := [(''/tmp'', Directory),
                 (''/etc/passwd'', Regular \<lparr> readable = True, mode = 420, data = ''root:x:0:0:'' \<rparr>)] \<rparr>"

definition file_relay :: relay where
  "file_relay = example_relay \<lparr> sessions := [(7, createSession example_host 7 ''/tmp/tm-7.sock'')] \<rparr>"

definition file_request :: request where
  "file_request =
     \<lparr> rmethod = GET, pathname = ''/api/file'', authorization = None, origin = None,
       q_token = Some example_token, q_session = Some ''7'', q_path = Some ''/etc/passwd'',
       rbody = None \<rparr>"

definition preflight_request :: request where
  "preflight_request =
     \<lparr> rmethod = OPTIONS, pathname = ''/api/sessions'', authorization = None, origin = None,
       q_token = Some (ascii ''wrong''), q_session = None, q_path = None, rbody = None \<rparr>"

definition foreign_upgrade :: request where
  "foreign_upgrade =
     \<lparr> rmethod = GET, pathname = ''/ws/terminal'', authorization = None,
       origin = Some ''http://evil.example'', q_token = Some (ascii ''wrong''), q_session = Some ''7'',
       q_path = None, rbody = None \<rparr>"

definition wrong_token_request :: request where
  "wrong_token_request =
     \<lparr> rmethod = GET, pathname = ''/api/sessions'', authorization = None, origin = None,
       q_token = Some (ascii ''0123456789abcdef0123456789abcdef0123456789abcdeX''), q_session = None,
       q_path = None, rbody = None \<rparr>"

definition non_ascii_request :: request where
  "non_ascii_request =
     \<lparr> rmethod = GET, pathname = ''/api/sessions'', authorization = None, origin = None,
       q_token = Some (0xE9 # ascii ''123456789abcdef0123456789abcdef0123456789abcdef''), q_session = None,
       q_path = None, rbody = None \<rparr>"

text \<open>
  A host on which process 7 has died and left its endpoint behind, the same host without
  the endpoint, a session for process 7 whose
  retries are used up, one that has retried three times, the relay tracking the former,
  and its connection manager with one socket still open.
\<close>

definition stale_host :: host where
  "stale_host = example_host \<lparr> files := [(''/tmp'', Directory), (''/tmp/tm-7.sock'', Socket)] \<rparr>"

definition cleaned_host :: host where
  "cleaned_host = stale_host \<lparr> files := [(''/tmp'', Directory)] \<rparr>"

definition exhausted_session :: session where
  "exhausted_session = (createSession example_host 7 ''/tmp/tm-7.sock'') \<lparr> reconnects := SOCKET_RECONNECT_MAX \<rparr>"


definition tracking_relay :: relay where
  "tracking_relay = example_relay \<lparr> sessions := [(7, exhausted_session)] \<rparr>"


text \<open>
  The attempts a connection manager has made, plus the reconnect timers pending, plus the
  retries its counter still allows; and the events that report a successful connection.
\<close>

definition budget :: "conn \<Rightarrow> nat" where
  "budget c = c_attempts c + c_timers c + (SOCKET_RECONNECT_MAX - reconnects (c_session c))"

fun is_connect :: "host \<times> cevent \<Rightarrow> bool" where
  "is_connect (h, SockConnect sock) = True"
| "is_connect (h, ev) = False"

section \<open>Ring buffer: the snapshot after an exact fill\<close>

text \<open>
  Claim C1 says that the snapshot is always the last \<open>min(total, C)\<close> bytes written. The
  first branch of \<open>write\<close> resets the cursor to 0, and \<open>getContents\<close> tests
  \<open>totalWritten <= capacity\<close>: when the first bytes ever written are exactly \<open>C\<close> bytes in
  one write, the total equals the capacity, the cursor is 0, and the snapshot is empty
  although \<open>C\<close> bytes were written. Here \<open>C = 4\<close> and the write is \<open>abcd\<close>.
\<close>

theorem rb_exact_fill_snapshot_empty:
  "getContents (rb_writes 4 [[0x61, 0x62, 0x63, 0x64]]) = []
   \<and> last_n (min (length (concat [[0x61, 0x62, 0x63, 0x64 :: byte]])) 4)
             (concat [[0x61, 0x62, 0x63, 0x64 :: byte]]) = [0x61, 0x62, 0x63, 0x64]"
  by (simp add: getContents_def rb_writes_def rb_write_def newRingBuffer_def buffer_copy_def
      subarray_def last_n_def)

subsection \<open>The invariant of the ring buffer\<close>

lemma rb_inv_new: "rb_inv (newRingBuffer c) []"
  by (simp add: rb_inv_def newRingBuffer_def last_n_def)

lemma last_n_append_long: "n \<le> length ys \<Longrightarrow> last_n n (xs @ ys) = last_n n ys"
  by (simp add: last_n_def)

lemma last_n_append_short:
  "length ys \<le> n \<Longrightarrow> last_n n (xs @ ys) = last_n (n - length ys) xs @ ys"
  by (simp add: last_n_def)

lemma buffer_copy_fits:
  assumes "sstart \<le> send" "send \<le> length src" "tstart + (send - sstart) \<le> length target"
  shows "buffer_copy src target tstart sstart send =
           take tstart target @ take (send - sstart) (drop sstart src)
             @ drop (tstart + (send - sstart)) target"
proof -
  have "length (take (send - sstart) (drop sstart src)) = send - sstart" using assms(1,2) by simp
  moreover have "min (send - sstart) (length target - tstart) = send - sstart" using assms(3) by simp
  ultimately show ?thesis by (simp add: buffer_copy_def Let_def)
qed

lemma rb_inv_write:
  assumes "rb_inv rb written"
  shows "rb_inv (rb_write rb src) (written @ src)"
proof -
  let ?c = "capacity rb" and ?w = "writePos rb" and ?b = "buf rb" and ?n = "length src"
  from assms have lb: "length ?b = ?c" and tw: "totalWritten rb = length written" and wc: "?w \<le> ?c"
    and eqc: "length written = ?c \<longrightarrow> ?w = 0 \<or> ?w = ?c"
    by (simp_all add: rb_inv_def)
  consider (big) "?c \<le> ?n" | (fit) "?n < ?c" "?w + ?n \<le> ?c" | (wrap) "?n < ?c" "?c < ?w + ?n"
    by linarith
  then show ?thesis
  proof cases
    case big
    then show ?thesis using lb tw
      by (simp add: rb_inv_def rb_write_def buffer_copy_def last_n_append_long) (simp add: last_n_def)
  next
    case fit
    show ?thesis
    proof (cases "length written < ?c")
      case True
      with assms have w: "?w = length written" and t: "take (length written) ?b = written"
        by (simp_all add: rb_inv_def)
      show ?thesis using fit True lb tw w t
        by (auto simp: rb_inv_def rb_write_def buffer_copy_def last_n_def min_def)
    next
      case False
      with assms have r: "drop ?w ?b @ take ?w ?b = last_n ?c written"
        by (simp add: rb_inv_def)
      have "last_n ?c (written @ src) = last_n (?c - ?n) written @ src"
        using fit by (simp add: last_n_append_short)
      moreover have "last_n (?c - ?n) written = drop ?n (last_n ?c written)"
      proof -
        have "length written - (?c - ?n) = ?n + (length written - ?c)" using False fit by arith
        then show ?thesis by (simp add: last_n_def)
      qed
      moreover have "drop ?n (drop ?w ?b @ take ?w ?b) = drop (?w + ?n) ?b @ take ?w ?b"
        using fit lb by (simp add: add.commute)
      ultimately have "last_n ?c (written @ src) = drop (?w + ?n) ?b @ take ?w ?b @ src"
        using r by simp
      moreover have "length written + ?n = ?c \<longrightarrow> src = []"
      proof
        assume "length written + ?n = ?c"
        with False have "?n = 0" by linarith
        then show "src = []" by simp
      qed
      ultimately show ?thesis using fit False lb tw wc eqc
        by (auto simp: rb_inv_def rb_write_def buffer_copy_def min_def)
    qed
  next
    case wrap
    let ?f = "?c - ?w"
    have fn: "?f < ?n" using wrap wc by arith
    have e: "last_n ?c (written @ src) = last_n (?c - ?n) written @ src"
      using wrap by (simp add: last_n_append_short)
    have k: "last_n (?c - ?n) written = drop (?n - ?f) (take ?w ?b)"
    proof (cases "length written < ?c")
      case True
      with assms have w: "?w = length written" and t: "take (length written) ?b = written"
        by (simp_all add: rb_inv_def)
      have "length written - (?c - ?n) = ?n - ?f" using wrap w wc by arith
      then show ?thesis using w t by (simp add: last_n_def)
    next
      case False
      with assms have r: "drop ?w ?b @ take ?w ?b = last_n ?c written"
        by (simp add: rb_inv_def)
      have "last_n (?c - ?n) written = last_n (?c - ?n) (last_n ?c written)"
        using False by (simp add: last_n_def)
      also have "\<dots> = last_n (?c - ?n) (drop ?w ?b @ take ?w ?b)" using r by simp
      also have "\<dots> = last_n (?c - ?n) (take ?w ?b)"
        using wrap lb wc by (simp add: last_n_append_long)
      also have "\<dots> = drop (?n - ?f) (take ?w ?b)"
      proof -
        have "min (length ?b) ?w - (?c - ?n) = ?n - ?f" using wrap wc lb by (simp add: min_def) arith
        then show ?thesis by (simp add: last_n_def)
      qed
      finally show ?thesis .
    qed
    have b1: "buffer_copy src ?b ?w 0 ?f = take ?w ?b @ take ?f src"
      using buffer_copy_fits[of 0 ?f src ?w ?b] fn wc lb by simp
    have l1: "length (take ?w ?b @ take ?f src) = ?c" using fn wc lb by simp
    have "buffer_copy src (take ?w ?b @ take ?f src) 0 ?f ?n
            = drop ?f src @ drop (?n - ?f) (take ?w ?b @ take ?f src)"
      using buffer_copy_fits[of ?f ?n src 0 "take ?w ?b @ take ?f src"] fn wrap(1) l1 by simp
    then have b2: "buf (rb_write rb src) = drop ?f src @ drop (?n - ?f) (take ?w ?b @ take ?f src)"
      using wrap b1 by (simp add: rb_write_def Let_def)
    have wp: "writePos (rb_write rb src) = ?n - ?f" using wrap by (simp add: rb_write_def Let_def)
    have l2: "length (buf (rb_write rb src)) = ?c" using wrap wc lb fn
      by (simp add: b2)
    have rot: "drop (?n - ?f) (buf (rb_write rb src)) @ take (?n - ?f) (buf (rb_write rb src))
                 = drop (?n - ?f) (take ?w ?b) @ src"
    proof -
      have ld: "length (drop ?f src) = ?n - ?f" by simp
      have "drop (?n - ?f) (buf (rb_write rb src)) = drop (?n - ?f) (take ?w ?b @ take ?f src)"
        using ld by (simp add: b2)
      moreover have "take (?n - ?f) (buf (rb_write rb src)) = drop ?f src"
        using ld by (simp add: b2)
      moreover have "drop (?n - ?f) (take ?w ?b @ take ?f src) = drop (?n - ?f) (take ?w ?b) @ take ?f src"
        using wrap wc lb by simp
      ultimately show ?thesis by simp
    qed
    have gt: "?c < length written + ?n"
    proof (cases "length written < ?c")
      case True
      with assms have "?w = length written" by (simp add: rb_inv_def)
      with wrap show ?thesis by simp
    next
      case False
      with fn show ?thesis by arith
    qed
    have cap': "capacity (rb_write rb src) = ?c" by (simp add: rb_write_def Let_def)
    have tw': "totalWritten (rb_write rb src) = length written + ?n"
      using tw by (simp add: rb_write_def Let_def)
    have le: "?n - ?f \<le> ?c" using wrap by arith
    show ?thesis using gt l2 wp rot e k cap' tw' le
      by (simp add: rb_inv_def)
  qed
qed

lemma rb_inv_writes: "rb_inv rb written \<Longrightarrow> rb_inv (foldl rb_write rb ws) (written @ concat ws)"
proof (induction ws arbitrary: rb written)
  case Nil
  then show ?case by simp
next
  case (Cons w ws)
  from Cons.IH[OF rb_inv_write[OF Cons.prems, of w]] show ?case by simp
qed

text \<open>
  Apart from the one state the first branch of \<open>write\<close> can leave behind (total equal to the
  capacity with the cursor at 0), the snapshot is the last \<open>min(total, C)\<close> bytes written.
\<close>

lemma rb_snapshot_correct_unless_exact_fill:
  assumes "\<not> (length (concat ws) = c \<and> writePos (rb_writes c ws) = 0 \<and> 0 < c)"
  shows "getContents (rb_writes c ws) = last_n (min (length (concat ws)) c) (concat ws)"
proof -
  let ?rb = "rb_writes c ws" and ?all = "concat ws"
  have i: "rb_inv ?rb ?all" using rb_inv_writes[OF rb_inv_new, of c ws] by (simp add: rb_writes_def)
  have cap: "capacity ?rb = c"
    unfolding rb_writes_def
    by (induction ws rule: rev_induct) (simp_all add: newRingBuffer_def rb_write_def Let_def)
  show ?thesis
  proof (cases "length ?all < c")
    case True
    with i cap show ?thesis
      by (auto simp: rb_inv_def getContents_def subarray_def last_n_def min_def)
  next
    case False
    with i cap have r: "drop (writePos ?rb) (buf ?rb) @ take (writePos ?rb) (buf ?rb) = last_n c ?all"
      and lb: "length (buf ?rb) = c" and wc: "writePos ?rb \<le> c" and tw: "totalWritten ?rb = length ?all"
      by (simp_all add: rb_inv_def)
    show ?thesis
    proof (cases "length ?all = c")
      case True
      show ?thesis
      proof (cases "c = 0")
        case True
        then show ?thesis using lb tw cap \<open>length ?all = c\<close>
          by (simp add: getContents_def subarray_def last_n_def)
      next
        case False
        with assms True have w0: "writePos ?rb \<noteq> 0" by simp
        with i cap True have wc': "writePos ?rb = c" by (simp add: rb_inv_def)
        have la: "last_n c ?all = ?all" using True by (simp add: last_n_def)
        show ?thesis using r lb wc' tw cap True la
          by (simp add: getContents_def subarray_def)
      qed
    next
      case False
      then have "c < length ?all" using \<open>\<not> length ?all < c\<close> by simp
      then show ?thesis using r lb wc tw cap
        by (simp add: getContents_def subarray_def min_def)
    qed
  qed
qed


lemma rb_snapshot_empty_after_exact_fill:
  assumes "length (concat ws) = c" and "writePos (rb_writes c ws) = 0"
  shows "getContents (rb_writes c ws) = []"
proof -
  have i: "rb_inv (rb_writes c ws) (concat ws)"
    using rb_inv_writes[OF rb_inv_new, of c ws] by (simp add: rb_writes_def)
  have cap: "capacity (rb_writes c ws) = c"
    unfolding rb_writes_def
    by (induction ws rule: rev_induct) (simp_all add: newRingBuffer_def rb_write_def Let_def)
  from i cap assms show ?thesis by (simp add: rb_inv_def getContents_def subarray_def)
qed

section \<open>Wrapper start-up\<close>

lemma wrapper_start_files:
  "files (fst (wrapper_start h cmd args)) =
     (let sp = socket_path_of h;
          f1 = (case unlinkSync (files h) sp of Inl _ \<Rightarrow> files h | Inr f \<Rightarrow> f)
      in case listen_unix f1 sp of Inr f2 \<Rightarrow> f2 | Inl _ \<Rightarrow> f1)"
  by (simp add: wrapper_start_def startSocketServer_def Let_def split: sum.splits prod.splits)

lemma map_of_filter_other:
  "p \<noteq> q \<Longrightarrow> map_of (filter (\<lambda>e. fst e \<noteq> q) f) p = map_of f p"
  by (induction f) auto

lemma unlink_other:
  "p \<noteq> q \<Longrightarrow> map_of (case unlinkSync f q of Inl _ \<Rightarrow> f | Inr f' \<Rightarrow> f') p = map_of f p"
  by (simp add: unlinkSync_def map_of_filter_other split: option.splits node.splits)

lemma listen_other:
  "p \<noteq> q \<Longrightarrow> map_of (case listen_unix f q of Inr f2 \<Rightarrow> f2 | Inl _ \<Rightarrow> f) p = map_of f p"
  by (simp add: listen_unix_def map_add_def split: option.splits)

text \<open>Start-up changes the file system at the endpoint path only.\<close>

lemma wrapper_start_other_paths:
  "p \<noteq> socket_path_of h \<Longrightarrow> map_of (files (fst (wrapper_start h cmd args))) p = map_of (files h) p"
  by (simp add: wrapper_start_files Let_def listen_other unlink_other)

lemma example_socket_path: "socket_path_of example_host = ''/tmp/tm-1234.sock''"
  by code_simp

text \<open>
  Claim C5 says that start-up creates the endpoint \<open>{tmp-dir}/tm-{pid}.sock\<close> and writes
  an owner-only token file \<open>tm-{pid}.token\<close> beside it. The wrapper creates the endpoint
  and nothing else: after \<open>tm bash\<close> has started as process 1234 on a host with an empty
  \<open>/tmp\<close>, the directory holds the socket and no token file.
\<close>

theorem wrapper_start_no_token_file:
  "files (fst (wrapper_start example_host ''bash'' []))
     = [(''/tmp'', Directory), (''/tmp/tm-1234.sock'', Socket)]
   \<and> map_of (files (fst (wrapper_start example_host ''bash'' []))) ''/tmp/tm-1234.token'' = None"
  by (simp add: wrapper_start_files example_socket_path unlinkSync_def listen_unix_def)
     (simp add: example_host_def)

section \<open>A new IPC client\<close>

lemma wire_on_connection:
  "wire (on_connection h w c) = wire w @ (c, Hello (hello_of h w)) #
     (if getContents (ringBuffer w) = [] then [] else [(c, Scrollback (getContents (ringBuffer w)))])"
  by (simp add: on_connection_def sendToClient_def Let_def hello_of_def split: option.splits)

lemma wire_grows_step:
  "\<exists>more. wire (snd (wrapper_step (h, w) ev)) = wire w @ more"
  by (cases ev)
     (auto simp: wire_on_connection on_pty_data_def broadcastToMirrors_def on_pty_exit_def cleanup_def
        on_resize_def handleClientMessage_def on_sigint_def Let_def
        split: option.splits frame.splits)

lemma wire_grows_run:
  "\<exists>more. wire (snd (wrapper_run hw evs)) = wire (snd hw) @ more"
proof (induction evs arbitrary: hw)
  case Nil
  then show ?case by (simp add: wrapper_run_def)
next
  case (Cons ev evs)
  obtain h w where hw: "hw = (h, w)" by (cases hw)
  obtain m1 where m1: "wire (snd (wrapper_step (h, w) ev)) = wire w @ m1"
    using wire_grows_step by blast
  obtain m2 where m2: "wire (snd (wrapper_run (wrapper_step (h, w) ev) evs))
                         = wire (snd (wrapper_step (h, w) ev)) @ m2"
    using Cons.IH by blast
  show ?case using m1 m2 by (simp add: hw wrapper_run_def)
qed

lemma outbox_fresh: "client \<notin> fst ` set (wire w) \<Longrightarrow> outbox client w = []"
  by (auto simp: outbox_def filter_empty_conv)

text \<open>
  Claim C8, as the code has it: a client to which nothing was written yet receives, on
  connecting, the hello frame with the session metadata and then, only when the snapshot
  of the ring buffer is not empty, one scrollback frame holding that snapshot; whatever
  happens afterwards, these frames stay the first ones written to the client, so every
  live output frame comes after them.
\<close>

theorem new_client_hello_then_scrollback:
  assumes "client \<notin> fst ` set (wire w)"
  shows "outbox client (on_connection h w client) =
           Hello (hello_of h w) #
             (if getContents (ringBuffer w) = [] then [] else [Scrollback (getContents (ringBuffer w))])
         \<and> prefix (outbox client (on_connection h w client))
                  (outbox client (snd (wrapper_run (h, on_connection h w client) evs)))"
proof -
  have a: "outbox client (on_connection h w client) =
           Hello (hello_of h w) #
             (if getContents (ringBuffer w) = [] then [] else [Scrollback (getContents (ringBuffer w))])"
    using outbox_fresh[OF assms] by (simp add: outbox_def wire_on_connection)
  obtain more where "wire (snd (wrapper_run (h, on_connection h w client) evs))
                       = wire (on_connection h w client) @ more"
    using wire_grows_run[of "(h, on_connection h w client)" evs] by auto
  then have "prefix (outbox client (on_connection h w client))
                  (outbox client (snd (wrapper_run (h, on_connection h w client) evs)))"
    by (simp add: outbox_def)
  with a show ?thesis by blast
qed

lemma wrapper_start_fields:
  "ringBuffer (snd (wrapper_start h cmd args)) = newRingBuffer RING_BUFFER_SIZE"
  "wire (snd (wrapper_start h cmd args)) = []"
  "socketClients (snd (wrapper_start h cmd args)) = []"
  "ptyProcess (snd (wrapper_start h cmd args)) =
     Some \<lparr> pty_cols = or_default (stdout_columns h) 80, pty_rows = or_default (stdout_rows h) 24,
            pty_written = [], pty_signals = [] \<rparr>"
  "command (snd (wrapper_start h cmd args)) = cmd"
  "commandArgs (snd (wrapper_start h cmd args)) = args"
  "startedAt (snd (wrapper_start h cmd args)) = now h"
  by (simp_all add: wrapper_start_def startSocketServer_def Let_def spawnPty_def initWrapper_def
      split: sum.splits prod.splits)

lemma rb_first_write:
  "length d < c \<Longrightarrow> getContents (rb_write (newRingBuffer c) d) = d"
  by (simp add: getContents_def rb_write_def newRingBuffer_def buffer_copy_def subarray_def Let_def)

lemma getContents_new: "getContents (newRingBuffer c) = []"
  by (simp add: getContents_def newRingBuffer_def subarray_def)

lemma on_pty_data_fields:
  "ringBuffer (on_pty_data w d) = rb_write (ringBuffer w) d"
  "wire (on_pty_data w d) = wire w @ map (\<lambda>c. (c, Output d)) (socketClients w)"
  "ptyProcess (on_pty_data w d) = ptyProcess w"
  "command (on_pty_data w d) = command w"
  "commandArgs (on_pty_data w d) = commandArgs w"
  "startedAt (on_pty_data w d) = startedAt w"
  by (simp_all add: on_pty_data_def broadcastToMirrors_def Let_def)

lemma ring_buffer_room: "2 < RING_BUFFER_SIZE"
  by (simp add: RING_BUFFER_SIZE_def)

lemma example_wrapper_facts:
  "wire example_wrapper = []"
  "getContents (ringBuffer example_wrapper) = [0x68, 0x69]"
  "hello_of example_host example_wrapper =
     \<lparr> h_cwd = ''/home/u/proj'', h_cols = 100, h_rows = 24, h_pid = 1234, h_cmd = ''bash'',
       h_startedAt = ''t0'' \<rparr>"
proof -
  show "wire example_wrapper = []"
    by (simp add: example_wrapper_def on_pty_data_fields wrapper_start_fields)
  show "getContents (ringBuffer example_wrapper) = [0x68, 0x69]"
    using ring_buffer_room
    by (simp add: example_wrapper_def on_pty_data_fields wrapper_start_fields rb_first_write)
  show "hello_of example_host example_wrapper =
     \<lparr> h_cwd = ''/home/u/proj'', h_cols = 100, h_rows = 24, h_pid = 1234, h_cmd = ''bash'',
       h_startedAt = ''t0'' \<rparr>"
    by (simp add: hello_of_def example_wrapper_def on_pty_data_fields wrapper_start_fields)
       (simp add: example_host_def or_default_def)
qed

theorem new_client_hello_then_scrollback_witness:
  "1 \<notin> fst ` set (wire example_wrapper)
   \<and> outbox 1 (on_connection example_host example_wrapper 1) =
       [Hello \<lparr> h_cwd = ''/home/u/proj'', h_cols = 100, h_rows = 24, h_pid = 1234, h_cmd = ''bash'',
                h_startedAt = ''t0'' \<rparr>,
        Scrollback [0x68, 0x69]]
   \<and> prefix (outbox 1 (on_connection example_host example_wrapper 1))
            (outbox 1 (snd (wrapper_run (example_host, on_connection example_host example_wrapper 1)
                             [PtyData [0x21]])))"
proof -
  have f: "1 \<notin> fst ` set (wire example_wrapper)"
    by (simp add: example_wrapper_facts)
  from new_client_hello_then_scrollback [OF f, of example_host "[PtyData [0x21]]"]
  have a: "outbox 1 (on_connection example_host example_wrapper 1) =
             Hello (hello_of example_host example_wrapper) #
               (if getContents (ringBuffer example_wrapper) = [] then []
                else [Scrollback (getContents (ringBuffer example_wrapper))])"
    and b: "prefix (outbox 1 (on_connection example_host example_wrapper 1))
              (outbox 1 (snd (wrapper_run (example_host, on_connection example_host example_wrapper 1)
                               [PtyData [0x21]])))"
    by blast+
  from a have "outbox 1 (on_connection example_host example_wrapper 1) =
       [Hello \<lparr> h_cwd = ''/home/u/proj'', h_cols = 100, h_rows = 24, h_pid = 1234, h_cmd = ''bash'',
                h_startedAt = ''t0'' \<rparr>,
        Scrollback [0x68, 0x69]]"
    by (simp add: example_wrapper_facts)
  with f b show ?thesis by blast
qed

text \<open>
  Claim C8 as stated fails when the snapshot is empty: a client that connects right after
  start-up, before the child has printed anything, is sent the hello frame and no
  scrollback frame.
\<close>

theorem new_client_empty_buffer_hello_only:
  "outbox 1 (on_connection example_host (snd (wrapper_start example_host ''bash'' [])) 1) =
     [Hello \<lparr> h_cwd = ''/home/u/proj'', h_cols = 100, h_rows = 24, h_pid = 1234, h_cmd = ''bash'',
              h_startedAt = ''t0'' \<rparr>]"
  by (simp add: outbox_def wire_on_connection wrapper_start_fields getContents_new hello_of_def)
     (simp add: example_host_def or_default_def)

section \<open>The mailbox\<close>


lemma deliveries_append [simp]: "deliveries (a @ b) = deliveries a @ deliveries b"
  by (induction a rule: deliveries.induct) auto

lemma deliveries_ws: "deliveries (map (\<lambda>ws. WsSend ws m) xs) = []"
  by (induction xs) auto

lemma deliveries_bc [simp]: "deliveries (broadcastCommentJSON h s m) = []"
  unfolding broadcastCommentJSON_def by (simp add: deliveries_ws)

lemma last_n_short: "length xs \<le> n \<Longrightarrow> last_n n xs = xs"
  by (simp add: last_n_def)

lemma evict_last_n:
  "length q \<le> n \<Longrightarrow> 0 < n \<Longrightarrow> (if n \<le> length q then tl q else q) @ [e] = last_n n (q @ [e])"
  by (cases q) (auto simp: last_n_def)

lemma last_n_last_n_append: "last_n n (last_n n xs @ ys) = last_n n (xs @ ys)"
proof (cases "length xs \<le> n")
  case True
  then show ?thesis by (simp add: last_n_short)
next
  case False
  then show ?thesis by (simp add: last_n_def add.commute)
qed

lemma length_last_n: "length (last_n n xs) \<le> n"
  by (simp add: last_n_def)

lemma mailbox_run_append:
  "mailbox_run h (xs @ ys) s =
     (let (e1, s1) = mailbox_run h xs s; (e2, s2) = mailbox_run h ys s1 in (e1 @ e2, s2))"
  by (induction xs arbitrary: s) (auto simp: Let_def split: prod.splits)

lemma mailbox_run_append_fst:
  "fst (mailbox_run h (xs @ ys) s) =
     fst (mailbox_run h xs s) @ fst (mailbox_run h ys (snd (mailbox_run h xs s)))"
  by (simp add: mailbox_run_append split: prod.splits)

lemma mailbox_run_append_snd:
  "snd (mailbox_run h (xs @ ys) s) = snd (mailbox_run h ys (snd (mailbox_run h xs s)))"
  by (simp add: mailbox_run_append split: prod.splits)

lemma mailbox_run_Cons:
  "mailbox_run h (c # cs) s =
     (fst (mailbox_call h c s) @ fst (mailbox_run h cs (snd (mailbox_call h c s))),
      snd (mailbox_run h cs (snd (mailbox_call h c s))))"
  by (simp split: prod.splits)

lemma entry_of_length: "length (entry_of t b) \<le> 1"
  by (simp add: entry_of_def split: option.splits)

text \<open>One submission, from a state where the queue or the list of waiters is empty.\<close>

lemma api_submit_step:
  assumes "length (messageQueue s) \<le> MAX_MESSAGE_QUEUE" "messageQueue s = [] \<or> pollWaiters s = []"
  shows "deliveries (fst (api_submit h res b s)) = zip (pollWaiters s) (entry_of (now h) b)"
    and "messageQueue (snd (api_submit h res b s)) =
           last_n MAX_MESSAGE_QUEUE (messageQueue s @ drop (length (pollWaiters s)) (entry_of (now h) b))"
    and "pollWaiters (snd (api_submit h res b s)) = drop (length (entry_of (now h) b)) (pollWaiters s)"
proof -
  have 0: "0 < MAX_MESSAGE_QUEUE" by (simp add: MAX_MESSAGE_QUEUE_def)
  have "deliveries (fst (api_submit h res b s)) = zip (pollWaiters s) (entry_of (now h) b)
      \<and> messageQueue (snd (api_submit h res b s)) =
           last_n MAX_MESSAGE_QUEUE (messageQueue s @ drop (length (pollWaiters s)) (entry_of (now h) b))
      \<and> pollWaiters (snd (api_submit h res b s)) = drop (length (entry_of (now h) b)) (pollWaiters s)"
  proof (cases "entry_of (now h) b")
    case Nil
    then show ?thesis using assms(1)
      by (cases b) (simp_all add: api_submit_def entry_of_def Let_def last_n_short split: if_splits)
  next
    case (Cons e es)
    then obtain bd where b: "b = Some bd" and t: "submit_text bd \<noteq> []"
      and e: "e = \<lparr> e_text = submit_text bd, e_at = now h \<rparr>" and es: "es = []"
      by (cases b) (auto simp: entry_of_def split: if_splits)
    show ?thesis
    proof (cases "pollWaiters s")
      case Nil
      have "(if MAX_MESSAGE_QUEUE \<le> length (messageQueue s) then tl (messageQueue s) else messageQueue s) @ [e]
              = last_n MAX_MESSAGE_QUEUE (messageQueue s @ [e])"
        by (rule evict_last_n[OF assms(1) 0])
      then show ?thesis using Nil Cons es b t e
        by (simp add: api_submit_def Let_def resolveNextPoll_session_def split: prod.splits)
    next
      case (Cons w ws)
      then have q: "messageQueue s = []" using assms(2) by simp
      show ?thesis using Cons q \<open>entry_of (now h) b = e # es\<close> es b t e 0
        by (simp add: api_submit_def Let_def resolveNextPoll_session_def last_n_def split: prod.splits)
    qed
  qed
  then show "deliveries (fst (api_submit h res b s)) = zip (pollWaiters s) (entry_of (now h) b)"
    and "messageQueue (snd (api_submit h res b s)) =
           last_n MAX_MESSAGE_QUEUE (messageQueue s @ drop (length (pollWaiters s)) (entry_of (now h) b))"
    and "pollWaiters (snd (api_submit h res b s)) = drop (length (entry_of (now h) b)) (pollWaiters s)"
    by blast+
qed

lemma zip_take_length: "zip (take (length ys) xs) ys = zip xs ys"
  by (induction xs ys rule: list_induct2') (auto simp: take_Cons')

lemma zip_append_right: "zip xs (ys @ zs) = zip xs ys @ zip (drop (length ys) xs) zs"
  by (simp add: zip_append2 zip_take_length)

text \<open>Submissions only: the waiters are served first, one entry each; the rest is queued.\<close>

lemma submits_serve_waiters:
  assumes "length (messageQueue s) \<le> MAX_MESSAGE_QUEUE" "messageQueue s = [] \<or> pollWaiters s = []"
  shows "deliveries (fst (mailbox_run h (submit_calls subs) s)) = zip (pollWaiters s) (entries_of subs)
       \<and> messageQueue (snd (mailbox_run h (submit_calls subs) s)) =
           last_n MAX_MESSAGE_QUEUE (messageQueue s @ drop (length (pollWaiters s)) (entries_of subs))
       \<and> pollWaiters (snd (mailbox_run h (submit_calls subs) s)) =
           drop (length (entries_of subs)) (pollWaiters s)"
  using assms
proof (induction subs arbitrary: s)
  case Nil
  then show ?case by (simp add: submit_calls_def entries_of_def last_n_short)
next
  case (Cons sub subs)
  obtain t b res where sub: "sub = (t, b, res)" by (cases sub)
  let ?h = "h\<lparr>now := t\<rparr>"
  let ?s1 = "snd (api_submit ?h res b s)"
  have n: "now ?h = t" by simp
  note st = api_submit_step[OF Cons.prems, of ?h res b, unfolded n]
  have l1: "length (messageQueue ?s1) \<le> MAX_MESSAGE_QUEUE" by (simp add: st(2) length_last_n)
  have d1: "messageQueue ?s1 = [] \<or> pollWaiters ?s1 = []"
  proof (cases "pollWaiters s")
    case Nil
    then show ?thesis by (simp add: st(3))
  next
    case (Cons w ws)
    then have "messageQueue s = []" using Cons.prems(2) by simp
    moreover have "drop (length (pollWaiters s)) (entry_of t b) = []"
      using entry_of_length[of t b] Cons by simp
    ultimately show ?thesis by (simp add: st(2) last_n_def)
  qed
  note IH = Cons.IH[OF l1 d1]
  have e: "entries_of (sub # subs) = entry_of t b @ entries_of subs" by (simp add: entries_of_def sub)
  have c: "submit_calls (sub # subs) = Submit t b res # submit_calls subs"
    by (simp add: submit_calls_def sub)
  have a: "deliveries (fst (mailbox_run h (submit_calls (sub # subs)) s))
             = zip (pollWaiters s) (entries_of (sub # subs))"
    using IH st
    by (simp only: c mailbox_run_Cons mailbox_call.simps fst_conv snd_conv e deliveries_append
          zip_append_right)
  have b: "messageQueue (snd (mailbox_run h (submit_calls (sub # subs)) s)) =
           last_n MAX_MESSAGE_QUEUE (messageQueue s @ drop (length (pollWaiters s)) (entries_of (sub # subs)))"
    using IH st
    by (simp only: c mailbox_run_Cons mailbox_call.simps fst_conv snd_conv e)
       (simp add: last_n_last_n_append)
  have d: "pollWaiters (snd (mailbox_run h (submit_calls (sub # subs)) s)) =
           drop (length (entries_of (sub # subs))) (pollWaiters s)"
    using IH st
    by (simp only: c mailbox_run_Cons mailbox_call.simps fst_conv snd_conv e)
       (simp add: add.commute)
  from a b d show ?case by blast
qed


lemma polls_empty_queue:
  "messageQueue s = [] \<Longrightarrow> deliveries (fst (mailbox_run h (map Poll rs) s)) = []
     \<and> messageQueue (snd (mailbox_run h (map Poll rs) s)) = []
     \<and> pollWaiters (snd (mailbox_run h (map Poll rs) s)) = pollWaiters s @ rs"
proof (induction rs arbitrary: s)
  case Nil
  then show ?case by simp
next
  case (Cons r rs)
  have "messageQueue (snd (api_poll r s)) = []" "deliveries (fst (api_poll r s)) = []"
    "pollWaiters (snd (api_poll r s)) = pollWaiters s @ [r]"
    using Cons.prems by (simp_all add: api_poll_def)
  then show ?case using Cons.IH[of "snd (api_poll r s)"]
    by (simp only: list.map mailbox_run_Cons mailbox_call.simps fst_conv snd_conv deliveries_append) simp
qed

text \<open>
  Polls only: the k-th poll receives the k-th queued entry, which leaves the queue; the
  polls beyond the queue join the waiters.
\<close>

lemma polls_deliver:
  "deliveries (fst (mailbox_run h (map Poll rs) s)) = zip rs (messageQueue s)
   \<and> messageQueue (snd (mailbox_run h (map Poll rs) s)) = drop (length rs) (messageQueue s)
   \<and> pollWaiters (snd (mailbox_run h (map Poll rs) s)) = pollWaiters s @ drop (length (messageQueue s)) rs"
proof (induction rs arbitrary: s)
  case Nil
  then show ?case by simp
next
  case (Cons r rs)
  show ?case
  proof (cases "messageQueue s")
    case Nil
    then show ?thesis using polls_empty_queue[of s h "r # rs"] by simp
  next
    case (Cons m q)
    have 1: "messageQueue (snd (api_poll r s)) = q" "deliveries (fst (api_poll r s)) = [(r, m)]"
      "pollWaiters (snd (api_poll r s)) = pollWaiters s"
      using Cons by (simp_all add: api_poll_def)
    show ?thesis using Cons.IH[of "snd (api_poll r s)"] 1 Cons
      by (simp only: list.map mailbox_run_Cons mailbox_call.simps fst_conv snd_conv deliveries_append) simp
  qed
qed

text \<open>
  Submissions followed by polls, from a state where the queue is within its capacity and
  the queue or the list of waiters is empty.
\<close>

lemma submits_then_polls:
  assumes "length (messageQueue s) \<le> MAX_MESSAGE_QUEUE" "messageQueue s = [] \<or> pollWaiters s = []"
  shows "deliveries (fst (mailbox_run h (submit_calls subs @ map Poll rs) s))
           = zip (pollWaiters s) (entries_of subs)
             @ zip rs (last_n MAX_MESSAGE_QUEUE
                         (messageQueue s @ drop (length (pollWaiters s)) (entries_of subs)))"
    and "messageQueue (snd (mailbox_run h (submit_calls subs @ map Poll rs) s))
           = drop (length rs) (last_n MAX_MESSAGE_QUEUE
                         (messageQueue s @ drop (length (pollWaiters s)) (entries_of subs)))"
    and "pollWaiters (snd (mailbox_run h (submit_calls subs @ map Poll rs) s))
           = drop (length (entries_of subs)) (pollWaiters s)
             @ drop (length (last_n MAX_MESSAGE_QUEUE
                         (messageQueue s @ drop (length (pollWaiters s)) (entries_of subs)))) rs"
  using submits_serve_waiters[OF assms, of h subs]
        polls_deliver[of h rs "snd (mailbox_run h (submit_calls subs) s)"]
  by (simp_all add: mailbox_run_append_fst mailbox_run_append_snd)

text \<open>
  In every state that calls on a new session's mailbox can produce, the queue is within
  its capacity, and the queue or the list of waiters is empty.
\<close>

lemma mailbox_call_inv:
  assumes "length (messageQueue s) \<le> MAX_MESSAGE_QUEUE" "messageQueue s = [] \<or> pollWaiters s = []"
  shows "length (messageQueue (snd (mailbox_call h c s))) \<le> MAX_MESSAGE_QUEUE
       \<and> (messageQueue (snd (mailbox_call h c s)) = [] \<or> pollWaiters (snd (mailbox_call h c s)) = [])"
proof (cases c)
  case (Submit t b res)
  let ?h = "h\<lparr>now := t\<rparr>"
  note st = api_submit_step[OF assms, of ?h res b]
  have "messageQueue (snd (api_submit ?h res b s)) = [] \<or> pollWaiters (snd (api_submit ?h res b s)) = []"
  proof (cases "pollWaiters s")
    case Nil
    then show ?thesis by (simp add: st(3))
  next
    case (Cons w ws)
    then have "messageQueue s = []" using assms(2) by simp
    moreover have "drop (length (pollWaiters s)) (entry_of (now ?h) b) = []"
      using entry_of_length[of "now ?h" b] Cons by simp
    ultimately show ?thesis by (simp add: st(2) last_n_def)
  qed
  then show ?thesis using Submit by (simp add: st(2) length_last_n)
next
  case (Poll res)
  then show ?thesis using assms by (cases "messageQueue s") (auto simp: api_poll_def)
next
  case (Messages res)
  then show ?thesis by (simp add: api_messages_def)
next
  case (PollTimeout res)
  then show ?thesis using assms by (auto simp: poll_timeout_def remove_waiter_def)
next
  case (PollClosed res)
  then show ?thesis using assms by (auto simp: poll_closed_def remove_waiter_def)
qed

lemma mailbox_run_inv:
  "length (messageQueue s) \<le> MAX_MESSAGE_QUEUE \<Longrightarrow> messageQueue s = [] \<or> pollWaiters s = [] \<Longrightarrow>
   length (messageQueue (snd (mailbox_run h cs s))) \<le> MAX_MESSAGE_QUEUE
   \<and> (messageQueue (snd (mailbox_run h cs s)) = [] \<or> pollWaiters (snd (mailbox_run h cs s)) = [])"
proof (induction cs arbitrary: s)
  case Nil
  then show ?case by simp
next
  case (Cons c cs)
  from mailbox_call_inv[OF Cons.prems, of h c]
  have "length (messageQueue (snd (mailbox_call h c s))) \<le> MAX_MESSAGE_QUEUE"
    "messageQueue (snd (mailbox_call h c s)) = [] \<or> pollWaiters (snd (mailbox_call h c s)) = []"
    by blast+
  from Cons.IH[OF this] show ?case by (simp only: mailbox_run_Cons snd_conv)
qed

lemma reached_inv:
  "length (messageQueue (reached h pre p sp)) \<le> MAX_MESSAGE_QUEUE
   \<and> (messageQueue (reached h pre p sp) = [] \<or> pollWaiters (reached h pre p sp) = [])"
  unfolding reached_def
  by (rule mailbox_run_inv) (simp_all add: createSession_def)

text \<open>
  Claim C2, as the code has it: in every state that calls on a new session's mailbox can produce, any
  submissions followed by any polls are served in arrival order, each entry to one
  consumer. The consumers already waiting receive the first entries created, one each, in
  the order in which they wait. Of the entries already queued and the entries created
  after the waiters are served, the mailbox keeps the last \<open>MAX_MESSAGE_QUEUE\<close>; the k-th
  poll receives the k-th of these, which leaves the queue. An entry that the capacity
  bound has dropped is delivered to nobody. Waiters beyond the entries keep waiting, polls
  beyond the entries join them, and entries beyond the polls stay queued.
\<close>

theorem mailbox_fifo_exactly_once:
  "deliveries (fst (mailbox_run h (submit_calls subs @ map Poll rs) (reached h0 pre p sp)))
     = zip (pollWaiters (reached h0 pre p sp)) (entries_of subs)
       @ zip rs (last_n MAX_MESSAGE_QUEUE
                   (messageQueue (reached h0 pre p sp)
                    @ drop (length (pollWaiters (reached h0 pre p sp))) (entries_of subs)))
   \<and> messageQueue (snd (mailbox_run h (submit_calls subs @ map Poll rs) (reached h0 pre p sp)))
     = drop (length rs) (last_n MAX_MESSAGE_QUEUE
                   (messageQueue (reached h0 pre p sp)
                    @ drop (length (pollWaiters (reached h0 pre p sp))) (entries_of subs)))
   \<and> pollWaiters (snd (mailbox_run h (submit_calls subs @ map Poll rs) (reached h0 pre p sp)))
     = drop (length (entries_of subs)) (pollWaiters (reached h0 pre p sp))
       @ drop (length (last_n MAX_MESSAGE_QUEUE
                   (messageQueue (reached h0 pre p sp)
                    @ drop (length (pollWaiters (reached h0 pre p sp))) (entries_of subs)))) rs"
proof -
  from reached_inv[of h0 pre p sp]
  have 1: "length (messageQueue (reached h0 pre p sp)) \<le> MAX_MESSAGE_QUEUE"
    and 2: "messageQueue (reached h0 pre p sp) = [] \<or> pollWaiters (reached h0 pre p sp) = []"
    by blast+
  from submits_then_polls[OF 1 2, of h subs rs] show ?thesis by blast
qed

lemma string_of_nat_nonempty: "string_of_nat n \<noteq> []"
  by (subst string_of_nat.simps) simp

lemma submit_text_message: "m \<noteq> [] \<Longrightarrow> submit_text (message_body m) = m"
  by (simp add: submit_text_def message_body_def)

lemma entry_of_message: "m \<noteq> [] \<Longrightarrow> entry_of t (Some (message_body m)) = [\<lparr> e_text = m, e_at = t \<rparr>]"
  by (simp add: entry_of_def submit_text_message)



theorem mailbox_fifo_exactly_once_witness:
  "deliveries (fst (mailbox_run example_host
         (submit_calls [(''t1'', Some (message_body ''m1''), 11), (''t2'', Some (message_body ''m2''), 12),
                        (''t3'', Some (message_body ''m3''), 13)]
          @ map Poll [1, 2, 3])
         (reached example_host [] 7 ''/tmp/tm-7.sock'')))
       = [(1, \<lparr> e_text = ''m1'', e_at = ''t1'' \<rparr>), (2, \<lparr> e_text = ''m2'', e_at = ''t2'' \<rparr>),
          (3, \<lparr> e_text = ''m3'', e_at = ''t3'' \<rparr>)]
   \<and> deliveries (fst (mailbox_run example_host
         (submit_calls [(''t1'', Some (message_body ''m1''), 11), (''t2'', Some (message_body ''m2''), 12),
                        (''t3'', Some (message_body ''m3''), 13)]
          @ map Poll [3])
         (reached example_host [Poll 1, Poll 2] 7 ''/tmp/tm-7.sock'')))
       = [(1, \<lparr> e_text = ''m1'', e_at = ''t1'' \<rparr>), (2, \<lparr> e_text = ''m2'', e_at = ''t2'' \<rparr>),
          (3, \<lparr> e_text = ''m3'', e_at = ''t3'' \<rparr>)]
   \<and> messageQueue (snd (mailbox_run example_host
         (submit_calls [(''t1'', Some (message_body ''m1''), 11), (''t2'', Some (message_body ''m2''), 12),
                        (''t3'', Some (message_body ''m3''), 13)]
          @ map Poll [3])
         (reached example_host [Poll 1, Poll 2] 7 ''/tmp/tm-7.sock''))) = []"
proof -
  let ?subs = "[(''t1'', Some (message_body ''m1''), 11), (''t2'', Some (message_body ''m2''), 12),
                (''t3'', Some (message_body ''m3''), 13 :: nat)]"
  have e: "entries_of ?subs
           = [\<lparr> e_text = ''m1'', e_at = ''t1'' \<rparr>, \<lparr> e_text = ''m2'', e_at = ''t2'' \<rparr>,
              \<lparr> e_text = ''m3'', e_at = ''t3'' \<rparr>]"
    by (simp add: entries_of_def entry_of_message)
  have a: "messageQueue (reached example_host [] 7 ''/tmp/tm-7.sock'') = []"
      "pollWaiters (reached example_host [] 7 ''/tmp/tm-7.sock'') = []"
    by (simp_all add: reached_def createSession_def)
  have b: "messageQueue (reached example_host [Poll 1, Poll 2] 7 ''/tmp/tm-7.sock'') = []"
      "pollWaiters (reached example_host [Poll 1, Poll 2] 7 ''/tmp/tm-7.sock'') = [1, 2]"
    by (simp_all add: reached_def createSession_def api_poll_def)
  from mailbox_fifo_exactly_once [of example_host ?subs "[1, 2, 3]" example_host "[]" 7 "''/tmp/tm-7.sock''",
        unfolded a e]
  have 1: "deliveries (fst (mailbox_run example_host (submit_calls ?subs @ map Poll [1, 2, 3])
             (reached example_host [] 7 ''/tmp/tm-7.sock'')))
       = [(1, \<lparr> e_text = ''m1'', e_at = ''t1'' \<rparr>), (2, \<lparr> e_text = ''m2'', e_at = ''t2'' \<rparr>),
          (3, \<lparr> e_text = ''m3'', e_at = ''t3'' \<rparr>)]"
    by (simp add: last_n_def MAX_MESSAGE_QUEUE_def)
  from mailbox_fifo_exactly_once [of example_host ?subs "[3]" example_host "[Poll 1, Poll 2]" 7 "''/tmp/tm-7.sock''",
        unfolded b e]
  have 2: "deliveries (fst (mailbox_run example_host (submit_calls ?subs @ map Poll [3])
             (reached example_host [Poll 1, Poll 2] 7 ''/tmp/tm-7.sock'')))
       = [(1, \<lparr> e_text = ''m1'', e_at = ''t1'' \<rparr>), (2, \<lparr> e_text = ''m2'', e_at = ''t2'' \<rparr>),
          (3, \<lparr> e_text = ''m3'', e_at = ''t3'' \<rparr>)]"
    and 3: "messageQueue (snd (mailbox_run example_host (submit_calls ?subs @ map Poll [3])
             (reached example_host [Poll 1, Poll 2] 7 ''/tmp/tm-7.sock''))) = []"
    by (simp_all add: last_n_def MAX_MESSAGE_QUEUE_def)
  from 1 2 3 show ?thesis by blast
qed

lemma string_of_nat_zero: "string_of_nat n = ''0'' \<longleftrightarrow> n = 0"
proof (cases "n < 10")
  case True
  have "char_of (48 + n) = CHR ''0'' \<longleftrightarrow> n = 0"
  proof
    assume "char_of (48 + n) = CHR ''0''"
    then have "of_char (char_of (48 + n) :: char) = (of_char CHR ''0'' :: nat)" by simp
    then show "n = 0" using True by (simp add: of_char_of)
  next
    have "char_of (48 :: nat) = CHR ''0''" by code_simp
    moreover assume "n = 0"
    ultimately show "char_of (48 + n) = CHR ''0''" by simp
  qed
  then show ?thesis using True by (subst string_of_nat.simps) (simp add: digit_char_def)
next
  case False
  then have "length (string_of_nat n) \<noteq> 1"
    using string_of_nat_nonempty[of "n div 10"] by (subst string_of_nat.simps) simp
  then show ?thesis using False by auto
qed

lemma overflow_entries:
  "entries_of overflow_submissions = map (\<lambda>i. \<lparr> e_text = string_of_nat i, e_at = ''t'' \<rparr>) [0 ..< 101]"
  by (simp add: entries_of_def overflow_submissions_def comp_def
      entry_of_message string_of_nat_nonempty del: upt_Suc)


lemma overflow_retained:
  "last_n MAX_MESSAGE_QUEUE (entries_of overflow_submissions)
     = map (\<lambda>i. \<lparr> e_text = string_of_nat i, e_at = ''t'' \<rparr>) [1 ..< 101]"
  by (simp add: overflow_entries last_n_def MAX_MESSAGE_QUEUE_def drop_map del: upt_Suc)

lemma overflow_tl:
  "tl (entries_of overflow_submissions)
     = map (\<lambda>i. \<lparr> e_text = string_of_nat i, e_at = ''t'' \<rparr>) [1 ..< 101]"
  by (simp add: overflow_entries map_tl [symmetric] del: upt_Suc)

lemma overflow_hd: "hd (entries_of overflow_submissions) = \<lparr> e_text = ''0'', e_at = ''t'' \<rparr>"
proof -
  have "string_of_nat 0 = ''0''" by (simp add: string_of_nat_zero)
  moreover have "[0 ..< 101] = 0 # [1 ..< 101]" by (simp add: upt_conv_Cons del: upt_Suc)
  ultimately show ?thesis by (simp add: overflow_entries del: upt_Suc)
qed

text \<open>
  Claim C2 as stated fails once more entries are submitted than the mailbox holds: after
  101 submissions with the texts 0 to 100 to a new session, 101 polls receive the entries
  1 to 100 in order; the entry 0, dropped by the 101st submission, is delivered to nobody,
  and the last poll is left waiting.
\<close>

theorem mailbox_overflow_entry_never_delivered:
  "length (entries_of overflow_submissions) = 101
   \<and> length overflow_polls = 101
   \<and> hd (entries_of overflow_submissions) = \<lparr> e_text = ''0'', e_at = ''t'' \<rparr>
   \<and> map snd (deliveries (fst (mailbox_run example_host
         (submit_calls overflow_submissions @ map Poll overflow_polls)
         (createSession example_host 7 ''/tmp/tm-7.sock''))))
       = tl (entries_of overflow_submissions)
   \<and> \<lparr> e_text = ''0'', e_at = ''t'' \<rparr> \<notin> snd ` set (deliveries (fst (mailbox_run example_host
         (submit_calls overflow_submissions @ map Poll overflow_polls)
         (createSession example_host 7 ''/tmp/tm-7.sock''))))"
proof -
  let ?s = "createSession example_host 7 ''/tmp/tm-7.sock''"
  let ?run = "mailbox_run example_host (submit_calls overflow_submissions @ map Poll overflow_polls) ?s"
  let ?kept = "map (\<lambda>i. \<lparr> e_text = string_of_nat i, e_at = ''t'' \<rparr>) [1 ..< 101]"
  have q: "messageQueue ?s = []" and w: "pollWaiters ?s = []" by (simp_all add: createSession_def)
  have l: "length (messageQueue ?s) \<le> MAX_MESSAGE_QUEUE" and d: "messageQueue ?s = [] \<or> pollWaiters ?s = []"
    using q by simp_all
  have dl: "deliveries (fst ?run) = zip overflow_polls ?kept"
    using submits_then_polls(1)[OF l d, of example_host overflow_submissions overflow_polls]
    by (simp only: q w overflow_retained zip_Nil append_Nil list.size drop_0)
  have lp: "length overflow_polls = 101" by (simp add: overflow_polls_def del: upt_Suc)
  have lk: "length ?kept = 100" by (simp del: upt_Suc)
  have ms: "map snd (deliveries (fst ?run)) = ?kept"
    by (simp only: dl map_snd_zip_take lp lk) (simp del: upt_Suc)
  have 1: "length (entries_of overflow_submissions) = 101" by (simp add: overflow_entries del: upt_Suc)
  have 4: "map snd (deliveries (fst ?run)) = tl (entries_of overflow_submissions)"
    by (simp only: ms overflow_tl)
  have nk: "\<lparr> e_text = ''0'', e_at = ''t'' \<rparr> \<notin> set ?kept"
    by (auto simp: string_of_nat_zero eq_commute [of "''0''"] simp del: upt_Suc)
  have "snd ` set (deliveries (fst ?run)) = set (map snd (deliveries (fst ?run)))"
    by (rule set_map [symmetric])
  then have sk: "snd ` set (deliveries (fst ?run)) = set ?kept"
    by (simp only: ms)
  have 5: "\<lparr> e_text = ''0'', e_at = ''t'' \<rparr> \<notin> snd ` set (deliveries (fst ?run))"
    unfolding sk by (rule nk)
  from 1 lp overflow_hd 4 5 show ?thesis by blast
qed

lemma resolveNextPoll_length:
  "length (snd (snd (resolveNextPoll ws q p))) \<le> length q"
  by (induction ws q p rule: resolveNextPoll.induct) (auto split: prod.splits)

lemma api_submit_bounded:
  assumes "length (messageQueue s) \<le> MAX_MESSAGE_QUEUE"
  shows "length (messageQueue (snd (api_submit h res b s))) \<le> MAX_MESSAGE_QUEUE"
proof (cases b)
  case None
  then show ?thesis using assms by (simp add: api_submit_def)
next
  case (Some bd)
  show ?thesis
  proof (cases "submit_text bd = []")
    case True
    then show ?thesis using assms Some by (simp add: api_submit_def)
  next
    case False
    let ?q1 = "(if MAX_MESSAGE_QUEUE \<le> length (messageQueue s) then tl (messageQueue s) else messageQueue s)
                 @ [\<lparr> e_text = submit_text bd, e_at = now h \<rparr>]"
    have 0: "0 < MAX_MESSAGE_QUEUE" by (simp add: MAX_MESSAGE_QUEUE_def)
    have l: "length ?q1 \<le> MAX_MESSAGE_QUEUE" using assms 0 by auto
    have "messageQueue (snd (api_submit h res b s)) = snd (snd (resolveNextPoll (pollWaiters s) ?q1 (pid s)))"
      using Some False
      by (simp add: api_submit_def Let_def resolveNextPoll_session_def split: prod.splits)
    then show ?thesis using resolveNextPoll_length[of "pollWaiters s" ?q1 "pid s"] l by simp
  qed
qed

lemma mailbox_call_bounded:
  assumes "length (messageQueue s) \<le> MAX_MESSAGE_QUEUE"
  shows "length (messageQueue (snd (mailbox_call h c s))) \<le> MAX_MESSAGE_QUEUE"
proof (cases c)
  case (Submit t b res)
  then show ?thesis using api_submit_bounded[OF assms] by simp
next
  case (Poll res)
  then show ?thesis using assms by (cases "messageQueue s") (simp_all add: api_poll_def)
next
  case (Messages res)
  then show ?thesis by (simp add: api_messages_def)
next
  case (PollTimeout res)
  then show ?thesis using assms by (simp add: poll_timeout_def)
next
  case (PollClosed res)
  then show ?thesis using assms by (simp add: poll_closed_def)
qed

lemma mailbox_run_bounded:
  "length (messageQueue s) \<le> MAX_MESSAGE_QUEUE \<Longrightarrow>
   length (messageQueue (snd (mailbox_run h cs s))) \<le> MAX_MESSAGE_QUEUE"
proof (induction cs arbitrary: s)
  case Nil
  then show ?case by simp
next
  case (Cons c cs)
  from Cons.IH[OF mailbox_call_bounded[OF Cons.prems]] show ?case
    by (simp only: mailbox_run_Cons snd_conv)
qed

text \<open>
  Claim C7: whatever calls are made on a mailbox within its capacity, the queue never
  grows beyond \<open>MAX_MESSAGE_QUEUE\<close>; and a submission that creates an entry while the
  queue is at capacity drops the oldest entry, appends the new one and answers with the
  same success response as any other submission.
\<close>

theorem mailbox_capacity_evicts_oldest:
  assumes "length (messageQueue s) \<le> MAX_MESSAGE_QUEUE"
  shows "length (messageQueue (snd (mailbox_run h cs s))) \<le> MAX_MESSAGE_QUEUE
       \<and> (length (messageQueue s) = MAX_MESSAGE_QUEUE \<and> pollWaiters s = [] \<and> submit_text bd \<noteq> []
            \<longrightarrow> messageQueue (snd (api_submit h res (Some bd) s))
                  = tl (messageQueue s) @ [\<lparr> e_text = submit_text bd, e_at = now h \<rparr>]
              \<and> length (messageQueue (snd (api_submit h res (Some bd) s))) = MAX_MESSAGE_QUEUE
              \<and> last (fst (api_submit h res (Some bd) s)) = Respond res 200 JSuccess)"
proof -
  have 0: "0 < MAX_MESSAGE_QUEUE" by (simp add: MAX_MESSAGE_QUEUE_def)
  have "length (messageQueue s) = MAX_MESSAGE_QUEUE \<and> pollWaiters s = [] \<and> submit_text bd \<noteq> []
            \<longrightarrow> messageQueue (snd (api_submit h res (Some bd) s))
                  = tl (messageQueue s) @ [\<lparr> e_text = submit_text bd, e_at = now h \<rparr>]
              \<and> length (messageQueue (snd (api_submit h res (Some bd) s))) = MAX_MESSAGE_QUEUE
              \<and> last (fst (api_submit h res (Some bd) s)) = Respond res 200 JSuccess"
    using 0 by (auto simp: api_submit_def Let_def resolveNextPoll_session_def split: prod.splits)
  with mailbox_run_bounded[OF assms] show ?thesis by blast
qed

theorem mailbox_capacity_evicts_oldest_witness:
  "length (messageQueue full_session) \<le> MAX_MESSAGE_QUEUE
   \<and> length (messageQueue (snd (mailbox_run example_host [Submit ''t1'' (Some (message_body ''new'')) 1] full_session)))
        \<le> MAX_MESSAGE_QUEUE
   \<and> messageQueue (snd (api_submit example_host 1 (Some (message_body ''new'')) full_session))
        = tl (messageQueue full_session) @ [\<lparr> e_text = ''new'', e_at = ''t0'' \<rparr>]
   \<and> length (messageQueue (snd (api_submit example_host 1 (Some (message_body ''new'')) full_session)))
        = MAX_MESSAGE_QUEUE"
proof -
  have l: "length (messageQueue full_session) \<le> MAX_MESSAGE_QUEUE"
    by (simp add: full_session_def)
  have p: "length (messageQueue full_session) = MAX_MESSAGE_QUEUE" "pollWaiters full_session = []"
     "submit_text (message_body ''new'') = ''new''" "now example_host = ''t0''"
    by (simp_all add: full_session_def createSession_def message_body_def submit_text_def example_host_def)
  have c: "length (messageQueue full_session) = MAX_MESSAGE_QUEUE \<and> pollWaiters full_session = []
           \<and> submit_text (message_body ''new'') \<noteq> []"
    using p by simp
  from mailbox_capacity_evicts_oldest [OF l, of example_host
        "[Submit ''t1'' (Some (message_body ''new'')) 1]" "message_body ''new''" 1] c
  have a: "length (messageQueue (snd (mailbox_run example_host
                     [Submit ''t1'' (Some (message_body ''new'')) 1] full_session))) \<le> MAX_MESSAGE_QUEUE"
    and x: "messageQueue (snd (api_submit example_host 1 (Some (message_body ''new'')) full_session))
              = tl (messageQueue full_session)
                @ [\<lparr> e_text = submit_text (message_body ''new''), e_at = now example_host \<rparr>]"
    and y: "length (messageQueue (snd (api_submit example_host 1 (Some (message_body ''new'')) full_session)))
              = MAX_MESSAGE_QUEUE"
    by blast+
  from l a x [unfolded p(3) p(4)] y show ?thesis by blast
qed



section \<open>Port binding\<close>

lemma listen_loop_in_use:
  assumes "\<forall>j. i \<le> j \<and> j < k \<longrightarrow> t (sp + j) = Some EADDRINUSE" "i \<le> k" "k \<le> m"
  shows "listen_loop t sp m i =
           (map (\<lambda>j. sp + j) [i..<k] @ fst (listen_loop t sp m k), snd (listen_loop t sp m k))"
  using assms
proof (induction "k - i" arbitrary: i)
  case 0
  then show ?case by simp
next
  case (Suc n)
  then have lt: "i < k" and im: "i < m" by simp_all
  have ti: "t (sp + i) = Some EADDRINUSE" using Suc.prems(1) lt by simp
  have IH: "listen_loop t sp m (Suc i) =
           (map (\<lambda>j. sp + j) [Suc i..<k] @ fst (listen_loop t sp m k), snd (listen_loop t sp m k))"
    using Suc.hyps(1)[of "Suc i"] Suc.hyps(2) Suc.prems lt by simp
  have "listen_loop t sp m i = ((sp + i) # fst (listen_loop t sp m (Suc i)), snd (listen_loop t sp m (Suc i)))"
    using im ti by (subst listen_loop.simps) (simp split: prod.splits)
  then show ?case using IH lt by (simp add: upt_conv_Cons)
qed

lemma scan_stops_at:
  assumes "\<forall>j < i. t (sp + j) = Some EADDRINUSE" "i < m" "t (sp + i) \<noteq> Some EADDRINUSE"
  shows "listenOnAvailablePort t sp m =
           (map (\<lambda>j. sp + j) [0..<Suc i],
            case t (sp + i) of None \<Rightarrow> Inr (sp + i) | Some e \<Rightarrow> Inl (ListenFailed e))"
proof -
  have "listen_loop t sp m i =
          ([sp + i], case t (sp + i) of None \<Rightarrow> Inr (sp + i) | Some e \<Rightarrow> Inl (ListenFailed e))"
    using assms(2,3) by (subst listen_loop.simps) (simp split: option.splits)
  then show ?thesis
    using listen_loop_in_use[of 0 i t sp m] assms(1,2) by (simp add: listenOnAvailablePort_def)
qed

lemma scan_exhausted:
  assumes "\<forall>j < m. t (sp + j) = Some EADDRINUSE"
  shows "listenOnAvailablePort t sp m = (map (\<lambda>j. sp + j) [0..<m], Inl NoAvailablePort)"
proof -
  have "listen_loop t sp m m = ([], Inl NoAvailablePort)"
    by (subst listen_loop.simps) simp
  then show ?thesis
    using listen_loop_in_use[of 0 m t sp m] assms by (simp add: listenOnAvailablePort_def)
qed

text \<open>
  Claim C9: the ports are tried one by one upwards from the start port, at most
  \<open>maxAttempts\<close> of them. The scan stops at the first port that is not in use: it returns
  that port when the server listens there, and fails with the error of that port
  otherwise, without trying a further port. When all \<open>maxAttempts\<close> ports are in use it
  fails with "no available port". Every failure of the scan from \<open>START_PORT\<close> makes
  \<open>start\<close> end the process with exit status 1.
\<close>

theorem port_scan_bounded_fatal:
  "((\<forall>j < i. tryListen (sp + j) = Some EADDRINUSE) \<and> i < m \<and> tryListen (sp + i) = None
      \<longrightarrow> listenOnAvailablePort tryListen sp m = (map (\<lambda>j. sp + j) [0..<Suc i], Inr (sp + i)))
   \<and> ((\<forall>j < i. tryListen (sp + j) = Some EADDRINUSE) \<and> i < m \<and> tryListen (sp + i) = Some e
        \<and> e \<noteq> EADDRINUSE
      \<longrightarrow> listenOnAvailablePort tryListen sp m = (map (\<lambda>j. sp + j) [0..<Suc i], Inl (ListenFailed e)))
   \<and> ((\<forall>j < m. tryListen (sp + j) = Some EADDRINUSE)
      \<longrightarrow> listenOnAvailablePort tryListen sp m = (map (\<lambda>j. sp + j) [0..<m], Inl NoAvailablePort))
   \<and> (snd (listenOnAvailablePort tryListen START_PORT MAX_PORT_SCAN) = Inl err
      \<longrightarrow> start tryListen h r = ([ConsoleError err, ProcessExit 1], r, h))"
proof (intro conjI impI)
  assume "(\<forall>j < i. tryListen (sp + j) = Some EADDRINUSE) \<and> i < m \<and> tryListen (sp + i) = None"
  then show "listenOnAvailablePort tryListen sp m = (map (\<lambda>j. sp + j) [0..<Suc i], Inr (sp + i))"
    using scan_stops_at[of i tryListen sp m] by simp
next
  assume "(\<forall>j < i. tryListen (sp + j) = Some EADDRINUSE) \<and> i < m \<and> tryListen (sp + i) = Some e
        \<and> e \<noteq> EADDRINUSE"
  then show "listenOnAvailablePort tryListen sp m = (map (\<lambda>j. sp + j) [0..<Suc i], Inl (ListenFailed e))"
    using scan_stops_at[of i tryListen sp m] by simp
next
  assume "\<forall>j < m. tryListen (sp + j) = Some EADDRINUSE"
  then show "listenOnAvailablePort tryListen sp m = (map (\<lambda>j. sp + j) [0..<m], Inl NoAvailablePort)"
    by (rule scan_exhausted)
next
  assume "snd (listenOnAvailablePort tryListen START_PORT MAX_PORT_SCAN) = Inl err"
  then show "start tryListen h r = ([ConsoleError err, ProcessExit 1], r, h)"
    by (simp add: start_def)
qed

lemma busy_range: "\<forall>j < MAX_PORT_SCAN. all_busy (START_PORT + j) = Some EADDRINUSE"
  by (simp add: all_busy_def)

theorem port_scan_bounded_fatal_witness:
  "listenOnAvailablePort two_busy 3456 100 = ([3456, 3457, 3458], Inr 3458)
   \<and> listenOnAvailablePort denied_third 3456 100 = ([3456, 3457, 3458], Inl (ListenFailed EACCES))
   \<and> listenOnAvailablePort all_busy START_PORT MAX_PORT_SCAN
        = (map (\<lambda>j. START_PORT + j) [0..<MAX_PORT_SCAN], Inl NoAvailablePort)
   \<and> start all_busy example_host example_relay
        = ([ConsoleError NoAvailablePort, ProcessExit 1], example_relay, example_host)"
proof -
  have a: "(\<forall>j < 2. two_busy (3456 + j) = Some EADDRINUSE) \<and> (2::nat) < 100 \<and> two_busy (3456 + 2) = None"
    by (simp add: two_busy_def)
  have b: "(\<forall>j < 2. denied_third (3456 + j) = Some EADDRINUSE) \<and> (2::nat) < 100
             \<and> denied_third (3456 + 2) = Some EACCES \<and> EACCES \<noteq> EADDRINUSE"
    by (simp add: denied_third_def)
  have u: "map (\<lambda>j. 3456 + j) [0..<Suc 2] = [3456, 3457, 3458 :: nat]"
    by (simp add: upt_rec)
  have 1: "listenOnAvailablePort two_busy 3456 100 = ([3456, 3457, 3458], Inr 3458)"
    using port_scan_bounded_fatal [of 2 two_busy 3456 100] a u by simp
  have 2: "listenOnAvailablePort denied_third 3456 100 = ([3456, 3457, 3458], Inl (ListenFailed EACCES))"
    using port_scan_bounded_fatal [of 2 denied_third 3456 100 EACCES] b u by simp
  have 3: "listenOnAvailablePort all_busy START_PORT MAX_PORT_SCAN
        = (map (\<lambda>j. START_PORT + j) [0..<MAX_PORT_SCAN], Inl NoAvailablePort)"
    using port_scan_bounded_fatal [of _ all_busy START_PORT MAX_PORT_SCAN] busy_range by blast
  then have "snd (listenOnAvailablePort all_busy START_PORT MAX_PORT_SCAN) = Inl NoAvailablePort"
    by simp
  then have 4: "start all_busy example_host example_relay
        = ([ConsoleError NoAvailablePort, ProcessExit 1], example_relay, example_host)"
    using port_scan_bounded_fatal [of _ all_busy _ _ _ NoAvailablePort example_host example_relay] by blast
  from 1 2 3 4 show ?thesis by blast
qed



section \<open>Reconnecting to a wrapper\<close>

lemma scheduled_append [simp]: "scheduled (a @ b) = scheduled a + scheduled b"
  by (simp add: scheduled_def)






lemma handleWrapperMessage_reconnects:
  "reconnects (snd (handleWrapperMessage h s m)) = reconnects s"
  by (cases m) (simp_all add: Let_def)









lemma retry_budget:
  "reconnects s \<le> SOCKET_RECONNECT_MAX \<Longrightarrow>
   reconnects (snd (retry h s)) = reconnects s + scheduled (fst (retry h s))
   \<and> reconnects (snd (retry h s)) \<le> SOCKET_RECONNECT_MAX"
  by (auto simp: retry_def scheduled_def split: sum.splits)

lemma connect_reconnects: "reconnects (snd (connectToWrapper h s sock)) = reconnects s"
  by (simp add: connectToWrapper_def Let_def split: sum.splits)


lemma budget_step:
  assumes "reconnects (c_session c) \<le> SOCKET_RECONNECT_MAX" "conn_step h c ev = Some c'"
    "\<not> is_connect (h, ev)"
  shows "budget c' = budget c \<and> reconnects (c_session c') \<le> SOCKET_RECONNECT_MAX"
proof (cases ev)
  case (TimerFires sock)
  then show ?thesis using assms connect_reconnects[of h "c_session c" sock]
    by (auto simp: budget_def case_prod_beta split: if_splits)
next
  case (SockConnect sock)
  then show ?thesis using assms by simp
next
  case (SockData sock m)
  then show ?thesis using assms handleWrapperMessage_reconnects[of h "c_session c" m]
    by (auto simp: budget_def case_prod_beta split: if_splits)
next
  case (SockError sock code)
  let ?s1 = "(c_session c)\<lparr> connected := False, socket := None \<rparr>"
  have r: "reconnects ?s1 \<le> SOCKET_RECONNECT_MAX" using assms(1) by simp
  show ?thesis
  proof (cases "code = ENOENT \<or> code = ECONNREFUSED")
    case True
    then have e: "on_sock_error h (c_session c) code = retry h ?s1" by (simp add: on_sock_error_def)
    from retry_budget[OF r, of h] SockError assms e show ?thesis
      by (auto simp: budget_def case_prod_beta split: if_splits)
  next
    case False
    then have e: "on_sock_error h (c_session c) code = ([], c_session c)" by (simp add: on_sock_error_def)
    from SockError assms e show ?thesis
      by (auto simp: budget_def scheduled_def split: if_splits)
  qed
next
  case (SockClose sock)
  let ?s1 = "(c_session c)\<lparr> connected := False, socket := None \<rparr>"
  have r: "reconnects ?s1 \<le> SOCKET_RECONNECT_MAX" using assms(1) by simp
  have e: "snd (on_sock_close h (c_session c)) = snd (retry h ?s1)"
     "scheduled (fst (on_sock_close h (c_session c))) = scheduled (fst (retry h ?s1))"
    by (simp_all add: on_sock_close_def Let_def case_prod_beta scheduled_def broadcastTerminalJSON_def)
  from retry_budget[OF r, of h] SockClose assms e show ?thesis
    by (auto simp: budget_def case_prod_beta split: if_splits)
qed

text \<open>
  As long as no connection succeeds, the attempts already made, the reconnect timers
  pending and the retries the counter still allows add up to a constant: from any state,
  at most the pending timers plus \<open>SOCKET_RECONNECT_MAX\<close> minus the counter further attempts
  are made.
\<close>

lemma attempts_bounded_without_connect:
  assumes "reconnects (c_session c) \<le> SOCKET_RECONNECT_MAX" "conn_run c evs = Some c'"
    "\<forall>e \<in> set evs. \<not> is_connect e"
  shows "c_attempts c' \<le> c_attempts c + c_timers c + (SOCKET_RECONNECT_MAX - reconnects (c_session c))"
proof -
  have "budget c' = budget c" using assms
  proof (induction evs arbitrary: c)
    case Nil
    then show ?case by simp
  next
    case (Cons hev evs)
    obtain h ev where hev: "hev = (h, ev)" by (cases hev)
    from Cons.prems(2) obtain c1 where s: "conn_step h c ev = Some c1" and r: "conn_run c1 evs = Some c'"
      by (auto simp: hev split: option.splits)
    have n: "\<not> is_connect (h, ev)" using Cons.prems(3) by (simp add: hev)
    from budget_step[OF Cons.prems(1) s n] Cons.IH[OF _ r] Cons.prems(3) show ?case by simp
  qed
  then show ?thesis by (simp add: budget_def)
qed

section \<open>The file endpoint\<close>

lemma resolve_absolute:
  "isAbsolute t \<Longrightarrow> path_resolve pc a t = ''/'' @ normalizeString (t @ ''/'') False"
  by (cases t) (simp_all add: path_resolve_def isAbsolute_def Let_def)

lemma normalize_absolute:
  "isAbsolute p \<Longrightarrow> isAbsolute (path_normalize p)"
  by (cases p) (auto simp: path_normalize_def isAbsolute_def Let_def)

lemma join_absolute:
  "isAbsolute a \<Longrightarrow> isAbsolute (path_join a b)"
proof -
  assume a: "isAbsolute a"
  then have ne: "a \<noteq> []" by (auto simp: isAbsolute_def)
  have "isAbsolute (a @ ''/'' @ b)" using a by (cases a) (simp_all add: isAbsolute_def)
  then show ?thesis using a ne by (simp add: path_join_def normalize_absolute)
qed

lemma prefix_slash_absolute: "prefix ''/'' fp \<longleftrightarrow> isAbsolute fp"
  by (cases fp) (auto simp: isAbsolute_def)

text \<open>
  Claim C10: an authenticated \<open>GET /api/file\<close> whose path is absolute, or starts with
  \<open>~/\<close> on a host with an absolute home directory, and names a readable regular file of
  at most \<open>MAX_FILE_READ_BYTES\<close> bytes, is answered with that file's content. The path
  read is the normal form of the given path (after \<open>~/\<close> expansion); the session's
  working directory enters the relative path reported in the response only, and nothing
  requires the file to lie inside it.
\<close>

theorem file_read_not_confined:
  assumes "isValidToken (masterToken r) (extractToken req) = Inr True"
    and "rmethod req = GET" and "pathname req = ''/api/file''"
    and "q_path req = Some fp"
    and "prefix ''/'' fp \<or> (prefix ''~/'' fp \<and> isAbsolute (homedir h))"
    and "resolved = ''/'' @ normalizeString
           ((if prefix ''~/'' fp then path_join (homedir h) (drop 2 fp) else fp) @ ''/'') False"
    and "map_of (files h) resolved = Some (Regular f)"
    and "readable f" and "length (data f) \<le> MAX_FILE_READ_BYTES"
  shows "httpServer h r res req =
           ([Respond res 200
               (JFile resolved
                  (path_relative (pcwd h)
                     (case getSessionFromQuery r req of
                        None \<Rightarrow> pcwd h | Some (p, s) \<Rightarrow> wi_cwd (wrapperInfo s))
                     resolved)
                  (data f))], r)"
proof -
  let ?target = "if prefix ''~/'' fp then path_join (homedir h) (drop 2 fp) else fp"
  let ?cwd = "case getSessionFromQuery r req of None \<Rightarrow> pcwd h | Some (p, s) \<Rightarrow> wi_cwd (wrapperInfo s)"
  have ne: "fp \<noteq> []" using assms(5) by auto
  have abs: "isAbsolute ?target"
  proof (cases "prefix ''~/'' fp")
    case True
    then have "\<not> prefix ''/'' fp" by (cases fp) auto
    with assms(5) True show ?thesis by (simp add: join_absolute)
  next
    case False
    with assms(5) show ?thesis by (simp add: prefix_slash_absolute)
  qed
  have res: "path_resolve (pcwd h) ?cwd ?target = resolved"
    using resolve_absolute[OF abs] assms(6) by simp
  have st: "statSync (files h) resolved = Inr \<lparr> isFile = True, size = length (data f) \<rparr>"
    using assms(7) by (simp add: statSync_def)
  have rd: "readFileSync (files h) resolved = Inr (data f)"
    using assms(7,8) by (simp add: readFileSync_def)
  have af: "api_file h r res req = [Respond res 200 (JFile resolved (path_relative (pcwd h) ?cwd resolved) (data f))]"
    using assms(4,9) ne st rd res
    by (simp add: api_file_def Let_def)
  have "routes h r res req = (api_file h r res req, r)"
    using assms(2,3) by (simp add: routes_def)
  then show ?thesis using assms(1,3) af by (simp add: httpServer_def assms(2))
qed

lemma example_token_valid: "isValidToken example_token example_token = Inr True"
  by code_simp

lemma file_request_token: "extractToken file_request = example_token"
  by code_simp

lemma file_request_resolved:
  "''/'' @ normalizeString ((if prefix ''~/'' ''/etc/passwd'' then path_join (homedir file_host) (drop 2 ''/etc/passwd'')
        else ''/etc/passwd'') @ ''/'') False = ''/etc/passwd''"
  by code_simp

lemma file_request_relative:
  "path_relative (pcwd file_host)
     (case getSessionFromQuery file_relay file_request of None \<Rightarrow> pcwd file_host | Some (p, s) \<Rightarrow> wi_cwd (wrapperInfo s))
     ''/etc/passwd'' = ''../../../etc/passwd''"
  by code_simp

theorem file_read_not_confined_witness:
  "isValidToken (masterToken file_relay) (extractToken file_request) = Inr True
   \<and> map_of (files file_host) ''/etc/passwd''
        = Some (Regular \<lparr> readable = True, mode = 420, data = ''root:x:0:0:'' \<rparr>)
   \<and> wi_cwd (wrapperInfo (createSession example_host 7 ''/tmp/tm-7.sock'')) = ''/home/u/proj''
   \<and> httpServer file_host file_relay 1 file_request =
        ([Respond 1 200 (JFile ''/etc/passwd'' ''../../../etc/passwd'' ''root:x:0:0:'')], file_relay)"
proof -
  have t: "isValidToken (masterToken file_relay) (extractToken file_request) = Inr True"
    using example_token_valid
    by (simp add: file_request_token) (simp add: file_relay_def example_relay_def)
  have m: "map_of (files file_host) ''/etc/passwd''
        = Some (Regular \<lparr> readable = True, mode = 420, data = ''root:x:0:0:'' \<rparr>)"
    by (simp add: file_host_def)
  have c: "wi_cwd (wrapperInfo (createSession example_host 7 ''/tmp/tm-7.sock'')) = ''/home/u/proj''"
    by (simp add: createSession_def example_host_def)
  have s: "length (data \<lparr> readable = True, mode = 420, data = ''root:x:0:0:'' \<rparr>) \<le> MAX_FILE_READ_BYTES"
    by (simp add: MAX_FILE_READ_BYTES_def)
  have "httpServer file_host file_relay 1 file_request =
        ([Respond 1 200 (JFile ''/etc/passwd''
            (path_relative (pcwd file_host)
               (case getSessionFromQuery file_relay file_request of
                  None \<Rightarrow> pcwd file_host | Some (p, s) \<Rightarrow> wi_cwd (wrapperInfo s))
               ''/etc/passwd'')
            (data \<lparr> readable = True, mode = 420, data = ''root:x:0:0:'' \<rparr>))], file_relay)"
    by (rule file_read_not_confined [where fp = "''/etc/passwd''", OF t _ _ _ _ file_request_resolved [symmetric] m _ s])
       (simp_all add: file_request_def)
  then have "httpServer file_host file_relay 1 file_request =
        ([Respond 1 200 (JFile ''/etc/passwd'' ''../../../etc/passwd'' ''root:x:0:0:'')], file_relay)"
    by (simp add: file_request_relative)
  with t m c show ?thesis by blast
qed



section \<open>The token gate\<close>


lemma len_cp: "length (utf8_of_codepoint n) = (if n < 0x80 then 1 else if n < 0x800 then 2 else if n < 0x10000 then 3 else 4)"
  by (simp add: utf8_of_codepoint_def)

lemma len_unit_ge: "length (utf8_of_unit c) \<ge> 1"
  by (simp add: utf8_of_unit_def len_cp)

lemma len_unit_eq1: "length (utf8_of_unit c) = 1 \<longleftrightarrow> c < 0x80"
  by (auto simp: utf8_of_unit_def len_cp is_high_surrogate_def is_low_surrogate_def word_less_nat_alt word_le_nat_alt)

lemma utf8_length_ge: "length cs \<le> length (utf8_encode cs)"
proof (induction cs rule: utf8_encode.induct)
  case 1
  then show ?case by simp
next
  case (2 c)
  then show ?case using len_unit_ge[of c] by simp
next
  case (3 c d cs)
  then show ?case using len_unit_ge[of c] by (auto simp: len_cp)
qed

lemma utf8_length_eq_ascii:
  "length (utf8_encode cs) = length cs \<Longrightarrow> \<forall>c \<in> set cs. c < 0x80"
proof (induction cs rule: utf8_encode.induct)
  case 1
  then show ?case by simp
next
  case (2 c)
  then show ?case using len_unit_eq1[of c] by simp
next
  case (3 c d cs)
  show ?case
  proof (cases "is_high_surrogate c \<and> is_low_surrogate d")
    case True
    then show ?thesis using 3(3) utf8_length_ge[of cs] by (simp add: len_cp split: if_splits)
  next
    case False
    have g: "length (d # cs) \<le> length (utf8_encode (d # cs))" by (rule utf8_length_ge)
    have u: "length (utf8_of_unit c) \<ge> 1" by (rule len_unit_ge)
    have "utf8_encode (c # d # cs) = utf8_of_unit c @ utf8_encode (d # cs)"
      by (subst utf8_encode.simps, rule if_not_P, rule False)
    with 3(3) have e: "length (utf8_of_unit c) + length (utf8_encode (d # cs)) = Suc (length (d # cs))"
      by simp
    with g u have 1: "length (utf8_of_unit c) = 1" and 2: "length (utf8_encode (d # cs)) = length (d # cs)"
      by simp_all
    from 3(2)[OF False 2] 1 len_unit_eq1[of c] show ?thesis by simp
  qed
qed

lemma utf8_ascii: "\<forall>c \<in> set cs. c < 0x80 \<Longrightarrow> utf8_encode cs = map (\<lambda>c. of_nat (unat c)) cs"
proof (induction cs rule: utf8_encode.induct)
  case 1
  then show ?case by simp
next
  case (2 c)
  then show ?case
    by (simp add: utf8_of_unit_def utf8_of_codepoint_def is_high_surrogate_def is_low_surrogate_def
        word_less_nat_alt word_le_nat_alt)
next
  case (3 c d cs)
  then show ?case
    by (simp add: utf8_of_unit_def utf8_of_codepoint_def is_high_surrogate_def is_low_surrogate_def
        word_less_nat_alt word_le_nat_alt)
qed

lemma byte_of_ascii_inj:
  fixes c d :: "16 word"
  assumes "c < 0x80" "d < 0x80" "(of_nat (unat c) :: 8 word) = of_nat (unat d)"
  shows "c = d"
proof -
  have c: "unat c < 128" and d: "unat d < 128" using assms(1,2) by (simp_all add: word_less_nat_alt)
  have "unat (of_nat (unat c) :: 8 word) = unat (of_nat (unat d) :: 8 word)" using assms(3) by simp
  then have "unat c mod 256 = unat d mod 256" by (simp add: unsigned_ucast_eq take_bit_eq_mod)
  then have "unat c = unat d" using c d by simp
  then show ?thesis by (simp add: word_unat_eq_iff)
qed

lemma map_byte_inj:
  "\<forall>c \<in> set xs. (c::16 word) < 0x80 \<Longrightarrow> \<forall>c \<in> set ys. c < 0x80 \<Longrightarrow>
   map (\<lambda>c. of_nat (unat c) :: 8 word) xs = map (\<lambda>c. of_nat (unat c)) ys \<Longrightarrow> xs = ys"
proof (induction xs arbitrary: ys)
  case Nil
  then show ?case by simp
next
  case (Cons x xs)
  from Cons.prems(3) obtain y ys' where ys: "ys = y # ys'" by (cases ys) simp_all
  have h: "(of_nat (unat x) :: 8 word) = of_nat (unat y)" and
       t: "map (\<lambda>c. of_nat (unat c) :: 8 word) xs = map (\<lambda>c. of_nat (unat c)) ys'"
    using Cons.prems(3) by (simp_all add: ys)
  have "x < 0x80" "y < 0x80" using Cons.prems(1,2) by (simp_all add: ys)
  then have "x = y" using h by (rule byte_of_ascii_inj)
  moreover have "xs = ys'" using Cons.IH[OF _ _ t] Cons.prems(1,2) by (simp add: ys)
  ultimately show ?case by (simp add: ys)
qed

lemma hex_ascii: "hex_token t \<Longrightarrow> \<forall>c \<in> set t. c < 0x80"
  by (auto simp: hex_token_def ascii_def)

lemma wrong_token_never_valid:
  assumes "\<forall>c \<in> set master. c < 0x80" "cand \<noteq> master"
  shows "isValidToken master cand \<noteq> Inr True"
proof
  assume v: "isValidToken master cand = Inr True"
  then have l: "length cand = length master" and
     b: "length (utf8_encode cand) = length (utf8_encode master)" and
     e: "utf8_encode cand = utf8_encode master"
    by (auto simp: isValidToken_def timingSafeEqual_def split: if_splits)
  have m: "utf8_encode master = map (\<lambda>c. of_nat (unat c)) master" using assms(1) by (rule utf8_ascii)
  then have "length (utf8_encode cand) = length cand" using b l by simp
  then have a: "\<forall>c \<in> set cand. c < 0x80" by (rule utf8_length_eq_ascii)
  then have "utf8_encode cand = map (\<lambda>c. of_nat (unat c)) cand" by (rule utf8_ascii)
  with e m have "map (\<lambda>c. of_nat (unat c) :: 8 word) cand = map (\<lambda>c. of_nat (unat c)) master" by simp
  from map_byte_inj[OF a assms(1) this] assms(2) show False by simp
qed

lemma wrong_token_rejected:
  assumes "\<forall>c \<in> set master. c < 0x80" "cand \<noteq> master"
    "length cand = length master \<longrightarrow> length (utf8_encode cand) = length (utf8_encode master)"
  shows "isValidToken master cand = Inr False"
proof -
  have "isValidToken master cand \<noteq> Inr True" using assms(1,2) by (rule wrong_token_never_valid)
  moreover have "\<exists>b. isValidToken master cand = Inr b" using assms(3)
    by (auto simp: isValidToken_def timingSafeEqual_def)
  ultimately show ?thesis by auto
qed


text \<open>A token that differs from the master token is never accepted, whatever it is.\<close>

lemma wrong_token_never_served:
  assumes "hex_token (masterToken r)" "extractToken req \<noteq> masterToken r"
    "rmethod req \<noteq> OPTIONS" "prefix ''/api/'' (pathname req)"
  shows "httpServer h r res req = (rejectUnauthorized res, r) \<or> httpServer h r res req = ([Throw RangeError], r)"
proof -
  have "isValidToken (masterToken r) (extractToken req) \<noteq> Inr True"
    using hex_ascii[OF assms(1)] assms(2) by (rule wrong_token_never_valid)
  moreover have "isValidToken (masterToken r) (extractToken req) = Inl e \<Longrightarrow> e = RangeError" for e
    by (auto simp: isValidToken_def timingSafeEqual_def split: if_splits)
  ultimately show ?thesis using assms(3,4)
    by (cases "isValidToken (masterToken r) (extractToken req)") (auto simp: httpServer_def)
qed

text \<open>
  Claim C3, as the code has it. A token that differs from the master token, and whose
  UTF-8 encoding has the master token's byte length whenever it has the master token's
  number of code units, is rejected: every request under \<open>/api/\<close> other than a preflight
  gets the one fixed 401 response and leaves the relay unchanged; every upgrade request
  that passes the origin check gets the fixed 401 reply and is dropped. A preflight
  (OPTIONS) request is answered 204 before the token is looked at, and an upgrade request
  from a foreign origin, outside remote mode, is refused with 403 before the token is
  looked at.
\<close>

theorem wrong_token_rejected_uniformly:
  assumes "hex_token (masterToken r)"
    and "cand \<noteq> masterToken r"
    and "length cand = length (masterToken r)
           \<longrightarrow> length (utf8_encode cand) = length (utf8_encode (masterToken r))"
  shows "(rmethod req \<noteq> OPTIONS \<and> prefix ''/api/'' (pathname req) \<and> extractToken req = cand
            \<longrightarrow> httpServer h r res req = (rejectUnauthorized res, r))
       \<and> ((remoteMode r \<or> origin req = None \<or> origin req = Some []
             \<or> origin req = Some (''http://localhost:'' @ port_string (serverPort r)))
           \<and> (case q_token req of None \<Rightarrow> [] | Some t \<Rightarrow> t) = cand
            \<longrightarrow> on_upgrade h r sock req
                  = ([RawReply sock ''HTTP/1.1 401 Unauthorized'', SocketDestroy sock], r))
       \<and> (rmethod req = OPTIONS \<longrightarrow> httpServer h r res req = ([Respond res 204 NoBody], r))
       \<and> (\<not> remoteMode r \<and> origin req = Some org \<and> org \<noteq> []
             \<and> org \<noteq> ''http://localhost:'' @ port_string (serverPort r)
            \<longrightarrow> on_upgrade h r sock req
                  = ([RawReply sock ''HTTP/1.1 403 Forbidden'', SocketDestroy sock], r))"
proof -
  have v: "isValidToken (masterToken r) cand = Inr False"
    using hex_ascii[OF assms(1)] assms(2,3) by (rule wrong_token_rejected)
  have 1: "rmethod req \<noteq> OPTIONS \<and> prefix ''/api/'' (pathname req) \<and> extractToken req = cand
            \<longrightarrow> httpServer h r res req = (rejectUnauthorized res, r)"
    using v by (auto simp: httpServer_def)
  have 2: "(remoteMode r \<or> origin req = None \<or> origin req = Some []
             \<or> origin req = Some (''http://localhost:'' @ port_string (serverPort r)))
           \<and> (case q_token req of None \<Rightarrow> [] | Some t \<Rightarrow> t) = cand
            \<longrightarrow> on_upgrade h r sock req
                  = ([RawReply sock ''HTTP/1.1 401 Unauthorized'', SocketDestroy sock], r)"
    using v by (auto simp: on_upgrade_def Let_def split: option.splits)
  have 3: "rmethod req = OPTIONS \<longrightarrow> httpServer h r res req = ([Respond res 204 NoBody], r)"
    by (simp add: httpServer_def)
  have 4: "\<not> remoteMode r \<and> origin req = Some org \<and> org \<noteq> []
             \<and> org \<noteq> ''http://localhost:'' @ port_string (serverPort r)
            \<longrightarrow> on_upgrade h r sock req
                  = ([RawReply sock ''HTTP/1.1 403 Forbidden'', SocketDestroy sock], r)"
    by (simp add: on_upgrade_def Let_def)
  from 1 2 3 4 show ?thesis by blast
qed

lemma example_token_hex: "hex_token example_token"
  unfolding hex_token_def by code_simp

lemma wrong_token_request_facts:
  "extractToken wrong_token_request \<noteq> example_token"
  "length (extractToken wrong_token_request) = length example_token"
  "length (utf8_encode (extractToken wrong_token_request)) = length (utf8_encode example_token)"
  by code_simp+

theorem wrong_token_rejected_uniformly_witness:
  "hex_token (masterToken example_relay)
   \<and> extractToken wrong_token_request \<noteq> masterToken example_relay
   \<and> httpServer example_host example_relay 1 wrong_token_request
        = ([Respond 1 401 (JError ''Unauthorized'')], example_relay)
   \<and> on_upgrade example_host example_relay 2 wrong_token_request
        = ([RawReply 2 ''HTTP/1.1 401 Unauthorized'', SocketDestroy 2], example_relay)"
proof -
  have m: "masterToken example_relay = example_token" by (simp add: example_relay_def)
  have h: "hex_token (masterToken example_relay)" using example_token_hex by (simp add: m)
  have n: "extractToken wrong_token_request \<noteq> masterToken example_relay"
    using wrong_token_request_facts(1) by (simp add: m)
  have l: "length (extractToken wrong_token_request) = length (masterToken example_relay)
           \<longrightarrow> length (utf8_encode (extractToken wrong_token_request))
                 = length (utf8_encode (masterToken example_relay))"
    using wrong_token_request_facts(3) by (simp add: m)
  have q: "(case q_token wrong_token_request of None \<Rightarrow> [] | Some t \<Rightarrow> t) = extractToken wrong_token_request"
    by (simp add: wrong_token_request_def extractToken_def ascii_def)
  have p: "rmethod wrong_token_request \<noteq> OPTIONS \<and> prefix ''/api/'' (pathname wrong_token_request)
           \<and> extractToken wrong_token_request = extractToken wrong_token_request"
    by (simp add: wrong_token_request_def)
  have o: "origin wrong_token_request = None" by (simp add: wrong_token_request_def)
  from wrong_token_rejected_uniformly [OF h n l, of wrong_token_request example_host 1 2] p q o
  have "httpServer example_host example_relay 1 wrong_token_request = (rejectUnauthorized 1, example_relay)"
    and "on_upgrade example_host example_relay 2 wrong_token_request
        = ([RawReply 2 ''HTTP/1.1 401 Unauthorized'', SocketDestroy 2], example_relay)"
    by blast+
  with h n show ?thesis by (simp add: rejectUnauthorized_def)
qed

text \<open>
  Claim C3 as stated fails on requests the code answers before it looks at the token: a
  preflight request to \<open>/api/sessions\<close> with a wrong token gets 204, not the unauthorized
  response, and an upgrade request with a wrong token from a foreign origin gets 403.
\<close>

theorem wrong_token_preflight_not_unauthorized:
  "q_token preflight_request \<noteq> Some (masterToken file_relay)
   \<and> httpServer file_host file_relay 1 preflight_request = ([Respond 1 204 NoBody], file_relay)
   \<and> q_token foreign_upgrade \<noteq> Some (masterToken file_relay)
   \<and> on_upgrade file_host file_relay 2 foreign_upgrade
        = ([RawReply 2 ''HTTP/1.1 403 Forbidden'', SocketDestroy 2], file_relay)"
proof -
  have t: "Some (ascii ''wrong'') \<noteq> Some example_token" by code_simp
  have p: "port_string (Some 3456) = ''3456''" by code_simp
  show ?thesis using t
    by (simp add: preflight_request_def foreign_upgrade_def file_relay_def example_relay_def
        httpServer_def on_upgrade_def Let_def p)
qed

text \<open>
  The check \<open>candidate.length !== masterToken.length\<close> counts code units, while
  \<open>timingSafeEqual\<close> needs equal byte lengths: a wrong token of 48 code units, one of them
  outside ASCII, makes \<open>isValidToken\<close> throw, and the exception leaves the request
  listener; no response is written.
\<close>

lemma same_length_non_ascii_token_throws:
  "httpServer example_host example_relay 1 non_ascii_request = ([Throw RangeError], example_relay)"
proof -
  have "isValidToken example_token (extractToken non_ascii_request) = Inl RangeError"
    by code_simp
  then show ?thesis
    by (simp add: httpServer_def example_relay_def) (simp add: non_ascii_request_def)
qed



section \<open>Discovery and the session list\<close>

lemma map_of_map_set: "map_of (map_set k v m) k' = (if k' = k then Some v else map_of m k')"
  by (induction m) auto

lemma map_has_map_of: "map_has m k \<longleftrightarrow> map_of m k \<noteq> None"
  by (simp add: map_has_def map_of_eq_None_iff)

lemma connect_new_keeps:
  assumes "map_of (sessions (snd st)) p = Some s"
  shows "map_of (sessions (snd (connect_new h st e))) p = Some s"
proof -
  obtain effs r where st: "st = (effs, r)" by (cases st)
  obtain q sp where e: "e = (q, sp)" by (cases e)
  show ?thesis
  proof (cases "map_has (sessions r) q")
    case True
    then show ?thesis using assms by (simp add: connect_new_def st e)
  next
    case False
    then have "q \<noteq> p" using assms by (auto simp: map_has_map_of st)
    then show ?thesis using assms False
      by (simp add: connect_new_def st e Let_def map_of_map_set split: prod.splits)
  qed
qed

lemma connect_all_keeps:
  "map_of (sessions (snd st)) p = Some s \<Longrightarrow>
   map_of (sessions (snd (foldl (connect_new h) st found))) p = Some s"
  by (induction found arbitrary: st) (simp_all add: connect_new_keeps)

text \<open>
  Discovery never removes or changes a tracked session: whatever the scan finds, a session
  in the Map before \<open>discoverAndConnect\<close> is in the Map afterwards, unchanged.
\<close>

lemma discover_keeps_sessions:
  assumes "map_get (sessions r) p = Some s"
  shows "map_get (sessions (fst (snd (discoverAndConnect h r)))) p = Some s"
  using assms connect_all_keeps[of "([], r)" p s "snd (scanForWrappers h)" "fst (scanForWrappers h)"]
  by (simp add: discoverAndConnect_def map_get_def Let_def case_prod_beta)

lemma map_of_filter_same: "map_of (filter (\<lambda>e. fst e \<noteq> q) f) q = None"
  by (induction f) auto

lemma unlink_shrinks:
  "map_of (case unlinkSync f sp of Inl _ \<Rightarrow> f | Inr f' \<Rightarrow> f') q = None
   \<or> map_of (case unlinkSync f sp of Inl _ \<Rightarrow> f | Inr f' \<Rightarrow> f') q = map_of f q"
  by (cases "q = sp")
     (auto simp: unlinkSync_def map_of_filter_other map_of_filter_same split: option.splits node.splits)

lemma unlink_removes:
  "map_of f sp \<noteq> Some Directory \<Longrightarrow>
   map_of (case unlinkSync f sp of Inl _ \<Rightarrow> f | Inr f' \<Rightarrow> f') sp = None"
  by (auto simp: unlinkSync_def map_of_filter_same split: option.splits node.splits)

lemma scan_entry_shrinks:
  "map_of (snd (scan_entry h e st)) q = None \<or> map_of (snd (scan_entry h e st)) q = map_of (snd st) q"
  using unlink_shrinks[of "snd st" "path_join (tmpdir h) e" q]
  by (auto simp: scan_entry_def Let_def case_prod_beta split: option.splits)

lemma scan_fold_shrinks:
  "map_of (snd (foldl (\<lambda>st ent. scan_entry h ent st) st es)) q = None
   \<or> map_of (snd (foldl (\<lambda>st ent. scan_entry h ent st) st es)) q = map_of (snd st) q"
proof (induction es arbitrary: st)
  case Nil
  then show ?case by simp
next
  case (Cons e es)
  from Cons.IH[of "scan_entry h e st"] scan_entry_shrinks[of h e st q] show ?case by auto
qed

lemma scan_entry_dead:
  assumes "prefix ''tm-'' ent" and "ends_with ''.sock'' ent"
    and "parseInt10 (take (length ent - 3 - 5) (drop 3 ent)) = Some p" and "\<not> alive h p"
    and "map_of (snd st) (path_join (tmpdir h) ent) \<noteq> Some Directory"
  shows "map_of (snd (scan_entry h ent st)) (path_join (tmpdir h) ent) = None"
  using assms(1-4) unlink_removes[OF assms(5)]
  by (simp add: scan_entry_def Let_def case_prod_beta)

text \<open>
  The scan unlinks the endpoint of every listed entry whose name parses to a dead process
  id, unless the entry is a directory.
\<close>

lemma scan_removes_dead_endpoint:
  assumes "readdirSync (files h) (tmpdir h) = Inr ents" and "ent \<in> set ents"
    and "prefix ''tm-'' ent" and "ends_with ''.sock'' ent"
    and "parseInt10 (take (length ent - 3 - 5) (drop 3 ent)) = Some p" and "\<not> alive h p"
    and "map_of (files h) (path_join (tmpdir h) ent) \<noteq> Some Directory"
  shows "map_of (files (snd (scanForWrappers h))) (path_join (tmpdir h) ent) = None"
proof -
  let ?F = "\<lambda>st ent. scan_entry h ent st" and ?sp = "path_join (tmpdir h) ent"
  from assms(2) obtain pre post where sp: "ents = pre @ ent # post" by (auto simp: in_set_conv_decomp)
  let ?s0 = "([], files h) :: (int \<times> string) list \<times> fs"
  let ?s1 = "foldl ?F ?s0 pre"
  have 1: "map_of (snd ?s1) ?sp \<noteq> Some Directory"
    using scan_fold_shrinks[of h ?s0 pre ?sp] assms(7) by auto
  have 2: "map_of (snd (scan_entry h ent ?s1)) ?sp = None"
    using assms(3-6) 1 by (rule scan_entry_dead)
  have 3: "map_of (snd (foldl ?F (scan_entry h ent ?s1) post)) ?sp = None"
    using scan_fold_shrinks[of h "scan_entry h ent ?s1" post ?sp] 2 by auto
  have "files (snd (scanForWrappers h)) = snd (foldl ?F ?s0 ents)"
    using assms(1) by (simp add: scanForWrappers_def Let_def case_prod_beta)
  then show ?thesis using 3 by (simp add: sp)
qed

lemma fst_set_map_set: "fst ` set (map_set k v m) = insert k (fst ` set m)"
  by (induction m) auto

lemma scan_entry_found:
  "fst ` set (fst (scan_entry h e st)) \<subseteq> fst ` set (fst st) \<union> {p. alive h p}"
  by (auto simp: scan_entry_def Let_def case_prod_beta fst_set_map_set split: option.splits if_splits)

lemma scan_fold_found:
  "fst ` set (fst (foldl (\<lambda>st ent. scan_entry h ent st) st es)) \<subseteq> fst ` set (fst st) \<union> {p. alive h p}"
proof (induction es arbitrary: st)
  case Nil
  then show ?case by simp
next
  case (Cons e es)
  from Cons.IH[of "scan_entry h e st"] scan_entry_found[of h e st] show ?case by auto
qed

text \<open>The scan reports live process ids only.\<close>

lemma scan_found_alive: "p \<in> fst ` set (fst (scanForWrappers h)) \<Longrightarrow> alive h p"
  using scan_fold_found[of h "([], files h)"]
  by (auto simp: scanForWrappers_def Let_def case_prod_beta split: sum.splits)

lemma connect_new_keys:
  "fst ` set (sessions (snd (connect_new h st e))) \<subseteq> insert (fst e) (fst ` set (sessions (snd st)))"
  by (auto simp: connect_new_def Let_def case_prod_beta fst_set_map_set split: if_splits)

lemma connect_all_keys:
  "fst ` set (sessions (snd (foldl (connect_new h) st found))) \<subseteq> fst ` set found \<union> fst ` set (sessions (snd st))"
proof (induction found arbitrary: st)
  case Nil
  then show ?case by simp
next
  case (Cons e es)
  from Cons.IH[of "connect_new h st e"] connect_new_keys[of h st e] show ?case by auto
qed

text \<open>
  Discovery adds sessions for live processes only: a process that is dead and not
  tracked before the scan is not tracked after it.
\<close>

lemma discover_adds_only_alive:
  assumes "map_has (sessions (fst (snd (discoverAndConnect h r)))) p"
  shows "map_has (sessions r) p \<or> alive h p"
proof -
  have "fst ` set (sessions (fst (snd (discoverAndConnect h r))))
          \<subseteq> fst ` set (fst (scanForWrappers h)) \<union> fst ` set (sessions r)"
    using connect_all_keys[of "snd (scanForWrappers h)" "([], r)" "fst (scanForWrappers h)"]
    by (simp add: discoverAndConnect_def Let_def case_prod_beta)
  then show ?thesis using assms scan_found_alive[of p h] by (auto simp: map_has_def)
qed

lemma connect_new_effects:
  assumes "CreateConnection p sp k \<in> set (fst (connect_new h st e))"
  shows "CreateConnection p sp k \<in> set (fst st) \<or> (p = fst e \<and> \<not> map_has (sessions (snd st)) p)"
  using assms
  by (auto simp: connect_new_def Let_def case_prod_beta connectToWrapper_def createSession_def
      split: if_splits sum.splits)

lemma connect_new_has:
  "map_has (sessions (snd st)) p \<Longrightarrow> map_has (sessions (snd (connect_new h st e))) p"
  by (auto simp: connect_new_def Let_def case_prod_beta map_has_def fst_set_map_set split: if_splits)

lemma connect_all_effects:
  assumes "map_has (sessions (snd st)) p" "CreateConnection p sp k \<notin> set (fst st)"
  shows "CreateConnection p sp k \<notin> set (fst (foldl (connect_new h) st found))"
  using assms
proof (induction found arbitrary: st)
  case Nil
  then show ?case by simp
next
  case (Cons e es)
  have 1: "map_has (sessions (snd (connect_new h st e))) p"
    using Cons.prems(1) by (rule connect_new_has)
  have 2: "CreateConnection p sp k \<notin> set (fst (connect_new h st e))"
    using connect_new_effects[of p sp k h st e] Cons.prems by auto
  from Cons.IH[OF 1 2] show ?case by simp
qed

text \<open>Discovery makes no connection attempt for a session that is already tracked.\<close>

lemma discover_no_attempt_for_tracked:
  assumes "map_has (sessions r) p"
  shows "CreateConnection p sp k \<notin> set (fst (discoverAndConnect h r))"
  using connect_all_effects[of "([], r)" p sp k "snd (scanForWrappers h)" "fst (scanForWrappers h)"] assms
  by (simp add: discoverAndConnect_def Let_def case_prod_beta)

lemma scan_host: "snd (scanForWrappers h) = h \<lparr> files := files (snd (scanForWrappers h)) \<rparr>"
  by (simp add: scanForWrappers_def Let_def case_prod_beta split: sum.splits)

lemma stale_scan: "scanForWrappers stale_host = ([], cleaned_host)"
proof -
  have 1: "fst (scanForWrappers stale_host) = []" by code_simp
  have 2: "files (snd (scanForWrappers stale_host)) = [(''/tmp'', Directory)]" by code_simp
  have "snd (scanForWrappers stale_host) = cleaned_host"
    using scan_host[of stale_host] by (simp add: 2 cleaned_host_def)
  with 1 show ?thesis by (simp add: prod_eq_iff)
qed

lemma cleaned_scan: "scanForWrappers cleaned_host = ([], cleaned_host)"
proof -
  have 1: "fst (scanForWrappers cleaned_host) = []" by code_simp
  have 2: "files (snd (scanForWrappers cleaned_host)) = [(''/tmp'', Directory)]" by code_simp
  have "snd (scanForWrappers cleaned_host) = cleaned_host"
    using scan_host[of cleaned_host] by (simp add: 2) (simp add: cleaned_host_def)
  with 1 show ?thesis by (simp add: prod_eq_iff)
qed

text \<open>
  Claim C4 says that a session whose process is dead loses its endpoint artifact at the
  next scan and does not appear in \<open>/api/sessions\<close>. The scan unlinks the artifact, but
  \<open>discoverAndConnect\<close> leaves the session Map as it is: with process 7 dead, its endpoint
  stale on disk and its retries used up, the scan removes \<open>/tmp/tm-7.sock\<close>, and session 7
  is still listed, also after a second scan.
\<close>

theorem dead_session_still_listed:
  "discoverAndConnect stale_host tracking_relay = ([], tracking_relay, cleaned_host)
   \<and> map_of (files cleaned_host) ''/tmp/tm-7.sock'' = None
   \<and> discoverAndConnect cleaned_host tracking_relay = ([], tracking_relay, cleaned_host)
   \<and> api_sessions cleaned_host tracking_relay 1
        = [Respond 1 200 (JSessions [\<lparr> r_pid = 7, r_cmd = [], r_cwd = ''/home/u/proj'',
                                        r_startedAt = None, r_connected = False \<rparr>])]"
proof -
  have d: "discoverAndConnect stale_host tracking_relay = ([], tracking_relay, cleaned_host)"
    by (simp add: discoverAndConnect_def stale_scan)
  have m: "map_of (files cleaned_host) ''/tmp/tm-7.sock'' = None"
    by (simp add: cleaned_host_def)
  have d2: "discoverAndConnect cleaned_host tracking_relay = ([], tracking_relay, cleaned_host)"
    by (simp add: discoverAndConnect_def cleaned_scan)
  have l: "api_sessions cleaned_host tracking_relay 1
        = [Respond 1 200 (JSessions [\<lparr> r_pid = 7, r_cmd = [], r_cwd = ''/home/u/proj'',
                                        r_startedAt = None, r_connected = False \<rparr>])]"
    by (simp add: api_sessions_def tracking_relay_def session_rows_def sort_rows_def has_start_def
        exhausted_session_def createSession_def example_host_def)
  from d m d2 l show ?thesis by blast
qed


end
